theory Spec2Isabelle
  imports Main "HOL-Library.Multiset" "HOL-Library.Char_ord"
begin

section \<open>Data model (types.ts)\<close>

text \<open>
  \<^verbatim>\<open>enum ContentType { HTML, LINK }\<close> is a numeric enum: at run time a content type is
  the number 0 or 1, and the \<^verbatim>\<open>content_type\<close> column of the \<^verbatim>\<open>mdx\<close> table is a
  plain INTEGER. A value read from the store can therefore be any integer, or null.
\<close>

type_synonym ContentType = int

definition HTML :: ContentType where
  "HTML = 0"

definition LINK :: ContentType where
  "LINK = 1"

text \<open>
  \<^verbatim>\<open>interface MdxRecord\<close>. \<open>None\<close> stands for null or undefined: \<^verbatim>\<open>rowid\<close> is optional
  in the interface, and \<^verbatim>\<open>insertRecords\<close> defaults a missing \<^verbatim>\<open>content_type\<close>.
\<close>

record MdxRecord =
  entry :: string
  paraphrase :: string
  content_type :: "ContentType option"
  rowid :: "int option"

text \<open>\<^verbatim>\<open>interface TransformOptions\<close>; the workflow receives \<^verbatim>\<open>options?\<close>.\<close>

record TransformOptions =
  htmlBeforeLink :: "bool option"

text \<open>
  A row of the \<^verbatim>\<open>mdx\<close> table with its SQLite rowid. A table is the list of its rows in
  insertion order.
\<close>

record Row =
  row_id :: int
  row_entry :: string
  row_paraphrase :: string
  row_content_type :: "ContentType option"

type_synonym Table = "Row list"

section \<open>The transform module and the worker context\<close>

text \<open>
  The caller's \<^verbatim>\<open>transformHtml(html: string): string\<close>. A JavaScript function may
  throw: \<open>None\<close> is a thrown exception.
\<close>

type_synonym TransformFn = "string \<Rightarrow> string option"

text \<open>
  What is found at a module path: no file, a file that \<^verbatim>\<open>import()\<close> rejects, a module whose
  \<^verbatim>\<open>transformHtml\<close> export is not a function, or a module exporting the function.
\<close>

datatype Module = NotFound | ImportFails | WrongShape | Exports TransformFn

datatype Error =
    ModuleNotFound
  | ImportError
  | ExportShapeError
  | TransformError
  | StoreError
  | TypeError

text \<open>
  The statements that the run sends to the source database: the \<^verbatim>\<open>COUNT(*)\<close> of
  \<^verbatim>\<open>getTotalRecordCount\<close>, the unpaginated \<^verbatim>\<open>SELECT\<close> of \<^verbatim>\<open>fetchRecords\<close>, and the page
  statement of \<^verbatim>\<open>fetchRecordsPaginated\<close> with the watermark bound to it (\<open>None\<close> is NULL).
\<close>

datatype Query =
    CountQuery "ContentType option"
  | AllQuery "ContentType option"
  | PageQuery "ContentType option" "int option"

text \<open>
  Everything the run takes from outside the program: the file system (\<^verbatim>\<open>fs.existsSync\<close> of a
  path as it was given, \<^verbatim>\<open>path.resolve\<close>, and \<open>files\<close>, what \<^verbatim>\<open>import()\<close> finds at the path
  it is given), the size of the worker pool and the worker that the pool picks for its k-th
  task, the store operations that raise (a statement on the source; an insert transaction by
  the number of rows the destination holds when it begins), and the rowid that SQLite draws
  for a new row when the largest rowid of the table is the largest 64-bit integer.
\<close>

record Env =
  existsSync :: "string \<Rightarrow> bool"
  files :: "string \<Rightarrow> Module"
  resolve :: "string \<Rightarrow> string"
  poolSize :: nat
  schedule :: "nat \<Rightarrow> nat"
  sourceFault :: "Query \<Rightarrow> bool"
  targetFault :: "nat \<Rightarrow> bool"
  randomRowid :: "Table \<Rightarrow> int"

text \<open>
  The \<^verbatim>\<open>globalThis\<close> of one execution context: the two cache slots written by
  \<^verbatim>\<open>transformHtmlRecords\<close>, and the log of the \<^verbatim>\<open>import()\<close> calls made in this context.
\<close>

record Globals =
  transformHtml :: "TransformFn option"
  transformModulePath :: "string option"
  importLog :: "string list"

definition freshGlobals :: Globals where
  "freshGlobals = \<lparr>transformHtml = None, transformModulePath = None, importLog = []\<rparr>"

text \<open>
  \<^verbatim>\<open>records.map(record => ({ ...record, paraphrase: f(record.paraphrase) }))\<close>: the first
  call of \<open>f\<close> that throws ends the map.
\<close>

fun mapRecords :: "TransformFn \<Rightarrow> MdxRecord list \<Rightarrow> MdxRecord list option" where
  "mapRecords f [] = Some []"
| "mapRecords f (record # records) =
     (case f (paraphrase record) of
        None \<Rightarrow> None
      | Some html \<Rightarrow>
          (case mapRecords f records of
             None \<Rightarrow> None
           | Some rest \<Rightarrow> Some (record\<lparr>paraphrase := html\<rparr> # rest)))"

text \<open>Line 24 of database.ts, after the cache has been looked at.\<close>

definition applyCached :: "MdxRecord list \<Rightarrow> Globals \<Rightarrow> Error + MdxRecord list" where
  "applyCached records g =
     (case transformHtml g of
        None \<Rightarrow> Inl TypeError
      | Some f \<Rightarrow> (case mapRecords f records of None \<Rightarrow> Inl TransformError | Some out \<Rightarrow> Inr out))"

text \<open>
  \<^verbatim>\<open>async function transformHtmlRecords(records, modulePath)\<close>, run in the context \<open>g\<close>.
\<close>

definition transformHtmlRecords ::
  "Env \<Rightarrow> MdxRecord list \<Rightarrow> string \<Rightarrow> Globals \<Rightarrow> (Error + MdxRecord list) \<times> Globals" where
  "transformHtmlRecords env records modulePath g =
     (if transformHtml g = None \<or> transformModulePath g \<noteq> Some modulePath then
        (let g1 = g\<lparr>importLog := importLog g @ [modulePath]\<rparr> in
         case files env modulePath of
           NotFound \<Rightarrow> (Inl ImportError, g1)
         | ImportFails \<Rightarrow> (Inl ImportError, g1)
         | WrongShape \<Rightarrow> (Inl ExportShapeError, g1)
         | Exports f \<Rightarrow>
             (let g2 = g1\<lparr>transformHtml := Some f, transformModulePath := Some modulePath\<rparr>
              in (applyCached records g2, g2)))
      else (applyCached records g, g))"

section \<open>Content partitioner\<close>

text \<open>
  \<^verbatim>\<open>MdxDatabase.splitRecordsByContentType\<close>: one pass, pushing onto either array. The result
  object \<^verbatim>\<open>{ htmlRecords, linkRecords }\<close> is the pair of the two arrays.
\<close>

definition splitStep ::
  "MdxRecord \<Rightarrow> MdxRecord list \<times> MdxRecord list \<Rightarrow> MdxRecord list \<times> MdxRecord list" where
  "splitStep record result =
     (case result of (htmlRecords, linkRecords) \<Rightarrow>
        if content_type record = Some HTML then (htmlRecords @ [record], linkRecords)
        else if content_type record = Some LINK then (htmlRecords, linkRecords @ [record])
        else result)"

definition splitRecordsByContentType :: "MdxRecord list \<Rightarrow> MdxRecord list \<times> MdxRecord list" where
  "splitRecordsByContentType records = fold splitStep records ([], [])"

section \<open>Chunk scheduler and worker pool\<close>

text \<open>
  What the run changes outside its own variables: the destination table, the size of every
  batch that \<^verbatim>\<open>insertRecords\<close> committed (in call order), and the worker pool library
  (pools created, \<^verbatim>\<open>terminate\<close> calls, \<^verbatim>\<open>exec\<close> calls, and the context of every worker of
  the pool in use).
\<close>

record World =
  target :: Table
  insertSizes :: "nat list"
  poolsCreated :: nat
  poolsTerminated :: nat
  dispatched :: nat
  workers :: "nat \<Rightarrow> Globals"

text \<open>\<^verbatim>\<open>workerpool.pool()\<close>: every worker of a new pool starts with an empty context.\<close>

definition pool_create :: "World \<Rightarrow> World" where
  "pool_create world =
     world\<lparr>poolsCreated := Suc (poolsCreated world), workers := (\<lambda>_. freshGlobals)\<rparr>"

definition pool_terminate :: "World \<Rightarrow> World" where
  "pool_terminate world = world\<lparr>poolsTerminated := Suc (poolsTerminated world)\<rparr>"

text \<open>
  \<^verbatim>\<open>pool.exec(transformHtmlRecords, [chunk, modulePath])\<close>: the task runs in the context of the
  worker that the pool picks for it. A worker runs its tasks one at a time, in the order in
  which they were handed to the pool.
\<close>

definition pool_exec ::
  "Env \<Rightarrow> MdxRecord list \<Rightarrow> string \<Rightarrow> World \<Rightarrow> (Error + MdxRecord list) \<times> World" where
  "pool_exec env chunk modulePath world =
     (let k = dispatched world;
          w = schedule env k mod max 1 (poolSize env);
          (result, g) = transformHtmlRecords env chunk modulePath (workers world w)
      in (result, world\<lparr>dispatched := Suc k, workers := (workers world)(w := g)\<rparr>))"

text \<open>\<^verbatim>\<open>htmlRecords.slice(i, j)\<close> for indices \<open>0 \<le> i \<le> j\<close>.\<close>

definition slice :: "'a list \<Rightarrow> nat \<Rightarrow> nat \<Rightarrow> 'a list" where
  "slice xs i j = take (j - i) (drop i xs)"

text \<open>
  The loop \<^verbatim>\<open>for (let i = 0; i < htmlRecords.length; i += chunkSize)\<close>. With a chunk size of
  0 it does not end; \<open>None\<close> is the run that never returns.
\<close>

partial_function (option) chunkLoop ::
  "'a list \<Rightarrow> nat \<Rightarrow> nat \<Rightarrow> 'a list list \<Rightarrow> 'a list list option" where
  "chunkLoop htmlRecords chunkSize i chunks =
     (if i < length htmlRecords
        then chunkLoop htmlRecords chunkSize (i + chunkSize)
               (chunks @ [slice htmlRecords i (i + chunkSize)])
      else Some chunks)"

text \<open>\<^verbatim>\<open>chunks.map(chunk => pool.exec(...))\<close>: every chunk is handed to the pool.\<close>

fun execChunks ::
  "Env \<Rightarrow> string \<Rightarrow> MdxRecord list list \<Rightarrow> World \<Rightarrow> (Error + MdxRecord list) list \<times> World" where
  "execChunks env modulePath [] world = ([], world)"
| "execChunks env modulePath (chunk # chunks) world =
     (let (result, world1) = pool_exec env chunk modulePath world;
          (results, world2) = execChunks env modulePath chunks world1
      in (result # results, world2))"

text \<open>
  \<^verbatim>\<open>Promise.all\<close>: all results in order, or a rejection. Of several rejections the model
  reports the one of the earliest chunk.
\<close>

fun promiseAll :: "(Error + 'a) list \<Rightarrow> Error + 'a list" where
  "promiseAll [] = Inr []"
| "promiseAll (Inl e # results) = Inl e"
| "promiseAll (Inr x # results) =
     (case promiseAll results of Inl e \<Rightarrow> Inl e | Inr xs \<Rightarrow> Inr (x # xs))"

text \<open>
  The static \<^verbatim>\<open>MdxDatabase.transformHtmlRecordsInParallel(htmlRecords, pool,
  transformModulePath, chunkSize)\<close>.
\<close>

definition transformHtmlRecordsInParallel ::
  "Env \<Rightarrow> MdxRecord list \<Rightarrow> string \<Rightarrow> nat \<Rightarrow> World \<Rightarrow> ((Error + MdxRecord list) \<times> World) option" where
  "transformHtmlRecordsInParallel env htmlRecords modulePath chunkSize world =
     (case chunkLoop htmlRecords chunkSize 0 [] of
        None \<Rightarrow> None
      | Some chunks \<Rightarrow>
          (let (results, world1) = execChunks env (resolve env modulePath) chunks world
           in case promiseAll results of
                Inl e \<Rightarrow> Some (Inl e, world1)
              | Inr transformedChunks \<Rightarrow> Some (Inr (concat transformedChunks), world1)))"

section \<open>Page cursor\<close>

text \<open>
  A rowid is a 64-bit integer, and the driver hands it to JavaScript as a \<^verbatim>\<open>number\<close>, the
  nearest double (ties to the even mantissa). Doubles of magnitude \<open>a\<close> lie \<open>spacing a\<close>
  apart: 1 below \<open>2 ^ 53\<close>, 2 from there to \<open>2 ^ 54\<close>, and so on. \<open>toNumber n\<close> is the value
  of the number read from the integer \<open>n\<close>; it is \<open>n\<close> itself up to \<open>2 ^ 53\<close>.
\<close>

fun spacing :: "nat \<Rightarrow> nat" where
  "spacing a = (if a < 2 ^ 53 then 1 else 2 * spacing (a div 2))"

declare spacing.simps [simp del]

definition toNumber :: "int \<Rightarrow> int" where
  "toNumber n =
     (let a = nat \<bar>n\<bar>;
          k = spacing a;
          q = a div k;
          r = a mod k;
          m = (if 2 * r < k \<or> (2 * r = k \<and> even q) then q else q + 1) * k
      in if n < 0 then - int m else int m)"

text \<open>\<^verbatim>\<open>SELECT entry, paraphrase, content_type, rowid FROM mdx\<close>: the record read from a row.\<close>

definition recordOfRow :: "Row \<Rightarrow> MdxRecord" where
  "recordOfRow r =
     \<lparr>entry = row_entry r, paraphrase = row_paraphrase r, content_type = row_content_type r,
      rowid = Some (toNumber (row_id r))\<rparr>"

text \<open>
  The optional \<^verbatim>\<open>WHERE content_type = ?\<close>; a null \<^verbatim>\<open>content_type\<close> equals no value.
\<close>

definition matchesType :: "ContentType option \<Rightarrow> Row \<Rightarrow> bool" where
  "matchesType contentType r =
     (case contentType of None \<Rightarrow> True | Some t \<Rightarrow> row_content_type r = Some t)"

text \<open>
  The page statement of \<^verbatim>\<open>fetchRecordsPaginated\<close>:
  \<^verbatim>\<open>SELECT ... WHERE [content_type = ? AND] rowid > ? ORDER BY rowid LIMIT ?\<close>.
  The watermark bound to \<^verbatim>\<open>rowid > ?\<close> is a JavaScript value: a number, or undefined, which
  the driver binds as NULL; no rowid is greater than NULL. Page and chunk sizes are counts,
  modelled as natural numbers.
\<close>

definition aboveWatermark :: "int option \<Rightarrow> Row \<Rightarrow> bool" where
  "aboveWatermark lastRowId r = (case lastRowId of None \<Rightarrow> False | Some w \<Rightarrow> w < row_id r)"

definition selectPage :: "Table \<Rightarrow> ContentType option \<Rightarrow> int option \<Rightarrow> nat \<Rightarrow> MdxRecord list" where
  "selectPage db contentType lastRowId pageSize =
     map recordOfRow
       (take pageSize
          (sort_key row_id
             (filter (\<lambda>r. matchesType contentType r \<and> aboveWatermark lastRowId r) db)))"

text \<open>
  One turn of the \<^verbatim>\<open>do ... while (true)\<close> loop of \<^verbatim>\<open>fetchRecordsPaginated\<close>, from the
  watermark \<open>lastRowId\<close>: \<open>None\<close> is the \<^verbatim>\<open>break\<close> (the generator is done), \<open>Some\<close> the page
  it yields.
\<close>

definition fetchRecordsPaginated ::
  "Table \<Rightarrow> ContentType option \<Rightarrow> nat \<Rightarrow> int option \<Rightarrow> MdxRecord list option" where
  "fetchRecordsPaginated db contentType pageSize lastRowId =
     (let records = selectPage db contentType lastRowId pageSize
      in if length records = 0 then None else Some records)"

text \<open>\<^verbatim>\<open>fetchRecords(contentType?)\<close> and \<^verbatim>\<open>fetchLinkRecords()\<close>.\<close>

definition fetchRecords :: "Table \<Rightarrow> ContentType option \<Rightarrow> MdxRecord list" where
  "fetchRecords db contentType =
     map recordOfRow (sort_key row_id (filter (matchesType contentType) db))"

definition fetchLinkRecords :: "Table \<Rightarrow> MdxRecord list" where
  "fetchLinkRecords db = fetchRecords db (Some LINK)"

section \<open>Destination writer\<close>

text \<open>
  \<^verbatim>\<open>record.content_type ??= record.paraphrase.startsWith('@@@LINK=') ? LINK : HTML\<close>
\<close>

definition defaultContentType :: "MdxRecord \<Rightarrow> ContentType" where
  "defaultContentType record =
     (case content_type record of
        Some t \<Rightarrow> t
      | None \<Rightarrow> if take 8 (paraphrase record) = ''@@@LINK='' then LINK else HTML)"

text \<open>
  The rowid that SQLite gives a new row: 1 in an empty table, else the largest plus 1; when
  the largest is \<open>2 ^ 63 - 1\<close>, a rowid drawn at random among the unused ones.
\<close>

definition nextRowid :: "Env \<Rightarrow> Table \<Rightarrow> int" where
  "nextRowid env db =
     (if db = [] then 1
      else if Max (set (map row_id db)) = 2 ^ 63 - 1 then randomRowid env db
      else Max (set (map row_id db)) + 1)"

text \<open>\<^verbatim>\<open>stmt.run(record.entry, record.paraphrase, record.content_type)\<close>\<close>

definition insertRow :: "Env \<Rightarrow> MdxRecord \<Rightarrow> Table \<Rightarrow> Table" where
  "insertRow env record db =
     db @ [\<lparr>row_id = nextRowid env db, row_entry = entry record,
            row_paraphrase = paraphrase record,
            row_content_type = Some (defaultContentType record)\<rparr>]"

text \<open>
  \<^verbatim>\<open>insertRecords(records)\<close> on the destination: one transaction, all rows or none. A
  transaction that raises, for whatever reason, is a \<open>targetFault\<close>.
\<close>

definition insertRecords :: "Env \<Rightarrow> MdxRecord list \<Rightarrow> World \<Rightarrow> Error + World" where
  "insertRecords env records world =
     (if targetFault env (length (target world)) then Inl StoreError
      else Inr (world\<lparr>target := fold (insertRow env) records (target world),
                       insertSizes := insertSizes world @ [length records]\<rparr>))"

section \<open>Pipeline generators\<close>

text \<open>
  \<^verbatim>\<open>records.filter(record => record.content_type === ContentType.HTML)\<close> returns a new array
  holding the same objects as \<open>records\<close>. The page is the store of these objects, and an
  object is named by its position in the page: \<open>htmlRefs\<close> are the positions of the objects in
  \<^verbatim>\<open>htmlRecords\<close>.
\<close>

definition htmlRefs :: "MdxRecord list \<Rightarrow> nat list" where
  "htmlRefs records = filter (\<lambda>i. content_type (records ! i) = Some HTML) [0..<length records]"

text \<open>
  \<^verbatim>\<open>for (i...) htmlRecords[i].paraphrase = transformedRecords[i].paraphrase\<close>: the loop walks
  both arrays in step and writes through the reference into the page. Reading
  \<^verbatim>\<open>transformedRecords[i]\<close> past the end gives undefined, whose property read throws.
\<close>

fun assignLoop :: "nat list \<Rightarrow> MdxRecord list \<Rightarrow> MdxRecord list \<Rightarrow> Error + MdxRecord list" where
  "assignLoop [] transformedRecords records = Inr records"
| "assignLoop (ref # refs) [] records = Inl TypeError"
| "assignLoop (ref # refs) (t # transformedRecords) records =
     assignLoop refs transformedRecords
       (records[ref := (records ! ref)\<lparr>paraphrase := paraphrase t\<rparr>])"

text \<open>The body of the \<^verbatim>\<open>for ... of\<close> loop of \<^verbatim>\<open>processRecordsInParallel\<close>, up to the yield.\<close>

definition processPage ::
  "Env \<Rightarrow> string \<Rightarrow> nat \<Rightarrow> MdxRecord list \<Rightarrow> World \<Rightarrow> ((Error + MdxRecord list) \<times> World) option" where
  "processPage env modulePath chunkSize records world =
     (let refs = htmlRefs records;
          htmlRecords = map (\<lambda>i. records ! i) refs
      in case transformHtmlRecordsInParallel env htmlRecords modulePath chunkSize world of
           None \<Rightarrow> None
         | Some (Inl e, world1) \<Rightarrow> Some (Inl e, world1)
         | Some (Inr transformedRecords, world1) \<Rightarrow>
             Some (assignLoop refs transformedRecords records, world1))"

text \<open>
  An async generator object of either pipeline method: not yet started, suspended at its
  \<^verbatim>\<open>yield\<close> (inside \<^verbatim>\<open>try\<close>, holding the \<^verbatim>\<open>rowid\<close> of the last record of the page, which the
  page cursor reads when it resumes), or finished.
\<close>

datatype GenState = Fresh | Suspended "int option" | Finished

text \<open>
  Both generators have the shape
  \<^verbatim>\<open>const pool = workerpool.pool(); try { for (const records of fetchRecordsPaginated(t, pageSize))
  { ...; yield page } } finally { await pool.terminate() }\<close>
  and differ in the content type \<open>t\<close> and in the loop body. \<open>pagePull\<close> runs the generator from
  the top of the loop to its next suspension or to its end; every way out of the \<^verbatim>\<open>try\<close>
  block passes through \<^verbatim>\<open>finally\<close>.
\<close>

definition pagePull ::
  "Env \<Rightarrow> Table \<Rightarrow> ContentType option \<Rightarrow> nat \<Rightarrow>
   (MdxRecord list \<Rightarrow> World \<Rightarrow> ((Error + MdxRecord list) \<times> World) option) \<Rightarrow>
   int option \<Rightarrow> World \<Rightarrow> ((Error + MdxRecord list option) \<times> GenState \<times> World) option" where
  "pagePull env db contentType pageSize body lastRowId world =
     (if sourceFault env (PageQuery contentType lastRowId)
        then Some (Inl StoreError, Finished, pool_terminate world)
      else case fetchRecordsPaginated db contentType pageSize lastRowId of
             None \<Rightarrow> Some (Inr None, Finished, pool_terminate world)
           | Some records \<Rightarrow>
               (case body records world of
                  None \<Rightarrow> None
                | Some (Inl e, world1) \<Rightarrow> Some (Inl e, Finished, pool_terminate world1)
                | Some (Inr page, world1) \<Rightarrow>
                    Some (Inr (Some page), Suspended (rowid (last records)), world1)))"

text \<open>
  \<^verbatim>\<open>generator.next()\<close>. A generator that starts creates its pool and pages from
  \<^verbatim>\<open>lastRowId = 0\<close>; one that resumes reads \<^verbatim>\<open>records[records.length - 1].rowid!\<close> as the new
  watermark.
\<close>

definition generator_next ::
  "Env \<Rightarrow> Table \<Rightarrow> ContentType option \<Rightarrow> nat \<Rightarrow>
   (MdxRecord list \<Rightarrow> World \<Rightarrow> ((Error + MdxRecord list) \<times> World) option) \<Rightarrow>
   GenState \<Rightarrow> World \<Rightarrow> ((Error + MdxRecord list option) \<times> GenState \<times> World) option" where
  "generator_next env db contentType pageSize body gs world =
     (case gs of
        Fresh \<Rightarrow> pagePull env db contentType pageSize body (Some 0) (pool_create world)
      | Suspended lastRowId \<Rightarrow> pagePull env db contentType pageSize body lastRowId world
      | Finished \<Rightarrow> Some (Inr None, Finished, world))"

text \<open>
  \<^verbatim>\<open>generator.return()\<close>: a generator suspended at its yield runs \<^verbatim>\<open>finally\<close>; one that has
  not started, or has finished, has nothing to run.
\<close>

definition generator_return :: "GenState \<Rightarrow> World \<Rightarrow> GenState \<times> World" where
  "generator_return gs world =
     (case gs of
        Suspended lastRowId \<Rightarrow> (Finished, pool_terminate world)
      | _ \<Rightarrow> (Finished, world))"

text \<open>The instance methods \<^verbatim>\<open>processRecordsInParallel\<close> and \<^verbatim>\<open>transformHtmlRecordsInParallel\<close>.\<close>

definition processRecordsInParallel ::
  "Env \<Rightarrow> Table \<Rightarrow> string \<Rightarrow> nat \<Rightarrow> nat \<Rightarrow>
   GenState \<Rightarrow> World \<Rightarrow> ((Error + MdxRecord list option) \<times> GenState \<times> World) option" where
  "processRecordsInParallel env db modulePath pageSize chunkSize =
     generator_next env db None pageSize (processPage env modulePath chunkSize)"

definition transformHtmlRecordsInParallel_gen ::
  "Env \<Rightarrow> Table \<Rightarrow> string \<Rightarrow> nat \<Rightarrow> nat \<Rightarrow>
   GenState \<Rightarrow> World \<Rightarrow> ((Error + MdxRecord list option) \<times> GenState \<times> World) option" where
  "transformHtmlRecordsInParallel_gen env db modulePath pageSize chunkSize =
     generator_next env db (Some HTML) pageSize
       (\<lambda>htmlRecords. transformHtmlRecordsInParallel env htmlRecords modulePath chunkSize)"

section \<open>Pipeline orchestrator (workflows.ts)\<close>

text \<open>
  \<^verbatim>\<open>for await (const page of generator) { loopBody(page) }\<close>. When the loop body throws, the
  loop calls \<^verbatim>\<open>generator.return()\<close> before the error leaves it.
\<close>

partial_function (option) for_await ::
  "(GenState \<Rightarrow> World \<Rightarrow> ((Error + MdxRecord list option) \<times> GenState \<times> World) option) \<Rightarrow>
   (MdxRecord list \<Rightarrow> World \<Rightarrow> Error + World) \<Rightarrow>
   GenState \<Rightarrow> World \<Rightarrow> ((Error + unit) \<times> GenState \<times> World) option" where
  "for_await gen_next loopBody gs world =
     (case gen_next gs world of
        None \<Rightarrow> None
      | Some (Inl e, gs1, world1) \<Rightarrow> Some (Inl e, gs1, world1)
      | Some (Inr None, gs1, world1) \<Rightarrow> Some (Inr (), gs1, world1)
      | Some (Inr (Some page), gs1, world1) \<Rightarrow>
          (case loopBody page world1 of
             Inl e \<Rightarrow> (case generator_return gs1 world1 of (gs2, world2) \<Rightarrow> Some (Inl e, gs2, world2))
           | Inr world2 \<Rightarrow> for_await gen_next loopBody gs1 world2))"

text \<open>
  \<^verbatim>\<open>validateModuleExists\<close>: \<^verbatim>\<open>fs.existsSync(modulePath)\<close>, on the path as the caller gave it.
\<close>

definition validateModuleExists :: "Env \<Rightarrow> string \<Rightarrow> Error + unit" where
  "validateModuleExists env modulePath =
     (if existsSync env modulePath then Inr () else Inl ModuleNotFound)"

text \<open>
  \<^verbatim>\<open>getTotalRecordCount(contentType?)\<close>: the number of rows of the kind, or of all rows.
\<close>

definition getTotalRecordCount :: "Env \<Rightarrow> Table \<Rightarrow> ContentType option \<Rightarrow> Error + nat" where
  "getTotalRecordCount env db contentType =
     (if sourceFault env (CountQuery contentType) then Inl StoreError
      else Inr (length (filter (matchesType contentType) db)))"

text \<open>The test \<^verbatim>\<open>options?.htmlBeforeLink\<close>: undefined counts as false.\<close>

definition optionsHtmlBeforeLink :: "TransformOptions option \<Rightarrow> bool" where
  "optionsHtmlBeforeLink options =
     (case options of None \<Rightarrow> False | Some opts \<Rightarrow> htmlBeforeLink opts = Some True)"

text \<open>
  \<^verbatim>\<open>runTransformWorkflow\<close>, with the page and chunk sizes of the generators as parameters; the
  source calls both generators with their defaults. Each mode reads the record count for
  its progress bar before it creates its generator; the bar itself and the console are not
  modelled. The destination database is \<open>target world\<close>.
\<close>

definition runTransformWorkflowWith ::
  "nat \<Rightarrow> nat \<Rightarrow> Env \<Rightarrow> Table \<Rightarrow> string \<Rightarrow> TransformOptions option \<Rightarrow> World \<Rightarrow>
   ((Error + unit) \<times> World) option" where
  "runTransformWorkflowWith pageSize chunkSize env sourceDatabase modulePath options world =
     (case validateModuleExists env modulePath of
        Inl e \<Rightarrow> Some (Inl e, world)
      | Inr _ \<Rightarrow>
          if optionsHtmlBeforeLink options then
            (case getTotalRecordCount env sourceDatabase (Some HTML) of
               Inl e \<Rightarrow> Some (Inl e, world)
             | Inr recordCount \<Rightarrow>
                 (case for_await
                         (transformHtmlRecordsInParallel_gen env sourceDatabase modulePath
                            pageSize chunkSize)
                         (insertRecords env) Fresh world of
                    None \<Rightarrow> None
                  | Some (Inl e, gs, world1) \<Rightarrow> Some (Inl e, world1)
                  | Some (Inr _, gs, world1) \<Rightarrow>
                      if sourceFault env (AllQuery (Some LINK)) then Some (Inl StoreError, world1)
                      else (case insertRecords env (fetchLinkRecords sourceDatabase) world1 of
                              Inl e \<Rightarrow> Some (Inl e, world1)
                            | Inr world2 \<Rightarrow> Some (Inr (), world2))))
          else
            (case getTotalRecordCount env sourceDatabase None of
               Inl e \<Rightarrow> Some (Inl e, world)
             | Inr recordCount \<Rightarrow>
                 (case for_await
                         (processRecordsInParallel env sourceDatabase modulePath pageSize chunkSize)
                         (insertRecords env) Fresh world of
                    None \<Rightarrow> None
                  | Some (Inl e, gs, world1) \<Rightarrow> Some (Inl e, world1)
                  | Some (Inr _, gs, world1) \<Rightarrow> Some (Inr (), world1))))"

text \<open>The default parameters \<^verbatim>\<open>pageSize = 1e4\<close> and \<^verbatim>\<open>chunkSize = 1e3\<close>.\<close>

definition runTransformWorkflow ::
  "Env \<Rightarrow> Table \<Rightarrow> string \<Rightarrow> TransformOptions option \<Rightarrow> World \<Rightarrow> ((Error + unit) \<times> World) option" where
  "runTransformWorkflow = runTransformWorkflowWith 10000 1000"

section \<open>Vocabulary of the properties\<close>

text \<open>
  A context's cache is sound when the cached function is what the cached path exports.
\<close>

definition cacheSound :: "Env \<Rightarrow> Globals \<Rightarrow> bool" where
  "cacheSound env g =
     (case (transformHtml g, transformModulePath g) of
        (Some f, Some p) \<Rightarrow> files env p = Exports f
      | _ \<Rightarrow> True)"

text \<open>
  A context of a pool whose dispatches all carried the path \<open>p\<close>, exporting \<open>f\<close>: it has
  not run a task yet, or it holds \<open>f\<close> under \<open>p\<close> after a single \<^verbatim>\<open>import()\<close>.
\<close>

definition cachedOnce :: "string \<Rightarrow> TransformFn \<Rightarrow> Globals \<Rightarrow> bool" where
  "cachedOnce p f g =
     (g = freshGlobals \<or>
      g = \<lparr>transformHtml = Some f, transformModulePath = Some p, importLog = [p]\<rparr>)"

text \<open>The outcome of a dispatch whose module exports \<open>f\<close>.\<close>

definition settle :: "TransformFn \<Rightarrow> MdxRecord list \<Rightarrow> Error + MdxRecord list" where
  "settle f records = (case mapRecords f records of None \<Rightarrow> Inl TransformError | Some out \<Rightarrow> Inr out)"

text \<open>A record whose content went through the total function \<open>h\<close>.\<close>

definition transformed :: "(string \<Rightarrow> string) \<Rightarrow> MdxRecord \<Rightarrow> MdxRecord" where
  "transformed h r = r\<lparr>paraphrase := h (paraphrase r)\<rparr>"

text \<open>Two worlds with the same pool counters.\<close>

definition samePools :: "World \<Rightarrow> World \<Rightarrow> bool" where
  "samePools world world' =
     (poolsCreated world' = poolsCreated world \<and> poolsTerminated world' = poolsTerminated world)"

text \<open>What a table holds, without the rowids, and what \<open>insertRow\<close> stores for a record.\<close>

definition contents :: "Table \<Rightarrow> (string \<times> string \<times> ContentType option) list" where
  "contents db = map (\<lambda>r. (row_entry r, row_paraphrase r, row_content_type r)) db"

definition stored :: "MdxRecord \<Rightarrow> string \<times> string \<times> ContentType option" where
  "stored record = (entry record, paraphrase record, Some (defaultContentType record))"

text \<open>Every worker context of the pool has a sound cache.\<close>

definition poolSound :: "Env \<Rightarrow> World \<Rightarrow> bool" where
  "poolSound env world = (\<forall>w. cacheSound env (workers world w))"

text \<open>
  The rows of the requested kind above the watermark, in rowid order: what the cursor has
  still to deliver.
\<close>

definition pending :: "Table \<Rightarrow> ContentType option \<Rightarrow> int option \<Rightarrow> Row list" where
  "pending db contentType lastRowId =
     filter (aboveWatermark lastRowId) (sort_key row_id (filter (matchesType contentType) db))"

text \<open>The page that the interleaved run yields for a fetched page, given a total \<open>h\<close>.\<close>

definition reassembled :: "(string \<Rightarrow> string) \<Rightarrow> MdxRecord \<Rightarrow> MdxRecord" where
  "reassembled h r = (if content_type r = Some HTML then transformed h r else r)"

text \<open>
  The rowid is the key of a table: no two rows share one. The rowids of a table are exact
  when each is read as the JavaScript number of the same value, as every rowid up to
  \<open>2 ^ 53\<close> is, and positive when each lies above the watermark 0 from which a generator
  starts.
\<close>

definition uniqueRowids :: "Table \<Rightarrow> bool" where
  "uniqueRowids db = distinct (map row_id db)"

definition exactRowids :: "Table \<Rightarrow> bool" where
  "exactRowids db = (\<forall>r \<in> set db. toNumber (row_id r) = row_id r)"

definition positiveRowids :: "Table \<Rightarrow> bool" where
  "positiveRowids db = (\<forall>r \<in> set db. 0 < row_id r)"

text \<open>The content that the interleaved run writes for a source row, given a total \<open>h\<close>.\<close>

definition interleavedContent :: "(string \<Rightarrow> string) \<Rightarrow> Row \<Rightarrow> string" where
  "interleavedContent h r =
     (if row_content_type r = Some HTML then h (row_paraphrase r) else row_paraphrase r)"

definition isHtml :: "Row \<Rightarrow> bool" where
  "isHtml r = (row_content_type r = Some HTML)"

definition isLink :: "Row \<Rightarrow> bool" where
  "isLink r = (row_content_type r = Some LINK)"

text \<open>The error of a dispatch whose module does not load.\<close>

definition loadError :: "Module \<Rightarrow> Error" where
  "loadError m = (case m of WrongShape \<Rightarrow> ExportShapeError | _ \<Rightarrow> ImportError)"

text \<open>
  What a run that returned left behind: how it ended, the rows of the destination, and the
  sizes of the batches committed to it. A loop over a generator is read as a run by
  forgetting the generator.
\<close>

definition outcome :: "((Error + unit) \<times> World) option \<Rightarrow> (Error + unit) option" where
  "outcome run = map_option fst run"

definition written ::
  "((Error + unit) \<times> World) option \<Rightarrow> (string \<times> string \<times> ContentType option) list option" where
  "written run = map_option (\<lambda>r. contents (target (snd r))) run"

definition batches :: "((Error + unit) \<times> World) option \<Rightarrow> nat list option" where
  "batches run = map_option (\<lambda>r. insertSizes (snd r)) run"

definition loopRun ::
  "((Error + unit) \<times> GenState \<times> World) option \<Rightarrow> ((Error + unit) \<times> World) option" where
  "loopRun run = map_option (\<lambda>r. (fst r, snd (snd r))) run"

section \<open>Example inputs\<close>

text \<open>
  A world before any run, rows and records, the source a, x, b, y, c (a, b, c of kind HTML;
  x, y of kind LINK), and the options that switch \<open>htmlBeforeLink\<close> on.
\<close>

definition initialWorld :: World where
  "initialWorld =
     \<lparr>target = [], insertSizes = [], poolsCreated = 0, poolsTerminated = 0, dispatched = 0,
      workers = (\<lambda>_. freshGlobals)\<rparr>"

definition mkRow :: "int \<Rightarrow> string \<Rightarrow> string \<Rightarrow> ContentType \<Rightarrow> Row" where
  "mkRow n e p t = \<lparr>row_id = n, row_entry = e, row_paraphrase = p, row_content_type = Some t\<rparr>"

definition htmlRecord :: "int \<Rightarrow> string \<Rightarrow> string \<Rightarrow> MdxRecord" where
  "htmlRecord n e p = \<lparr>entry = e, paraphrase = p, content_type = Some HTML, rowid = Some n\<rparr>"

definition axbycSource :: Table where
  "axbycSource =
     [mkRow 1 ''a'' ''a'' HTML, mkRow 2 ''x'' ''@@@LINK=a'' LINK, mkRow 3 ''b'' ''b'' HTML,
      mkRow 4 ''y'' ''@@@LINK=b'' LINK, mkRow 5 ''c'' ''c'' HTML]"

definition htmlBeforeLinkOptions :: "TransformOptions option" where
  "htmlBeforeLinkOptions = Some \<lparr>htmlBeforeLink = Some True\<rparr>"

text \<open>
  Sources outside the auto-assigned rowids and the two kinds: a row at rowid 0 before a row
  at rowid 1; an HTML row before a row whose kind is NULL; a LINK row and an HTML row at
  rowid \<open>2 ^ 53 + 1\<close>, which is read as the number \<open>2 ^ 53\<close>; rows at \<open>2 ^ 53 + 3\<close> and
  \<open>2 ^ 53 + 4\<close>, the first of which is read as the number \<open>2 ^ 53 + 4\<close>.
\<close>

definition zeroRowidSource :: Table where
  "zeroRowidSource = [mkRow 0 ''a'' ''a'' HTML, mkRow 1 ''b'' ''b'' HTML]"

definition nullKindSource :: Table where
  "nullKindSource =
     [mkRow 1 ''a'' ''a'' HTML,
      \<lparr>row_id = 2, row_entry = ''n'', row_paraphrase = ''n'', row_content_type = None\<rparr>]"

definition roundedDownSource :: Table where
  "roundedDownSource =
     [mkRow 1 ''x'' ''@@@LINK=a'' LINK, mkRow 9007199254740993 ''a'' ''a'' HTML]"

definition roundedUpSource :: Table where
  "roundedUpSource =
     [mkRow 9007199254740995 ''a'' ''a'' HTML, mkRow 9007199254740996 ''b'' ''b'' HTML]"

text \<open>An upper-casing transform, and an environment whose every module path exports it.\<close>

definition toUpperCase :: "string \<Rightarrow> string" where
  "toUpperCase s =
     map (\<lambda>c. if CHR ''a'' \<le> c \<and> c \<le> CHR ''z'' then char_of (of_char c - (32::nat)) else c) s"

definition upperEnv :: Env where
  "upperEnv =
     \<lparr>existsSync = (\<lambda>_. True), files = (\<lambda>_. Exports (\<lambda>s. Some (toUpperCase s))),
      resolve = (\<lambda>p. p), poolSize = 2, schedule = (\<lambda>k. k), sourceFault = (\<lambda>_. False),
      targetFault = (\<lambda>_. False), randomRowid = (\<lambda>_. 0)\<rparr>"

text \<open>
  Environments without store faults: one whose modules export the identity, one whose
  modules export no function, and one with no module file.
\<close>

definition identityEnv :: Env where
  "identityEnv =
     \<lparr>existsSync = (\<lambda>_. True), files = (\<lambda>_. Exports (\<lambda>s. Some s)),
      resolve = (\<lambda>p. p), poolSize = 2, schedule = (\<lambda>k. k), sourceFault = (\<lambda>_. False),
      targetFault = (\<lambda>_. False), randomRowid = (\<lambda>_. 0)\<rparr>"

definition wrongShapeEnv :: Env where
  "wrongShapeEnv =
     \<lparr>existsSync = (\<lambda>_. True), files = (\<lambda>_. WrongShape),
      resolve = (\<lambda>p. p), poolSize = 2, schedule = (\<lambda>k. k), sourceFault = (\<lambda>_. False),
      targetFault = (\<lambda>_. False), randomRowid = (\<lambda>_. 0)\<rparr>"

definition noModuleEnv :: Env where
  "noModuleEnv =
     \<lparr>existsSync = (\<lambda>_. False), files = (\<lambda>_. NotFound),
      resolve = (\<lambda>p. p), poolSize = 2, schedule = (\<lambda>k. k), sourceFault = (\<lambda>_. False),
      targetFault = (\<lambda>_. False), randomRowid = (\<lambda>_. 0)\<rparr>"

section \<open>Properties\<close>

subsection \<open>Worker dispatch\<close>

lemma mapRecords_length: "mapRecords f records = Some out \<Longrightarrow> length out = length records"
  by (induction records arbitrary: out) (auto split: option.splits)

lemma mapRecords_nth:
  "mapRecords f records = Some out \<Longrightarrow> i < length records \<Longrightarrow>
   f (paraphrase (records ! i)) = Some (paraphrase (out ! i)) \<and>
   out ! i = (records ! i)\<lparr>paraphrase := paraphrase (out ! i)\<rparr>"
proof (induction records arbitrary: out i)
  case Nil
  then show ?case by simp
next
  case (Cons r rs)
  then show ?case
    by (cases i) (auto split: option.splits)
qed

lemma mapRecords_total:
  "(\<forall>r \<in> set records. f (paraphrase r) = Some (h (paraphrase r))) \<Longrightarrow>
   mapRecords f records = Some (map (\<lambda>r. r\<lparr>paraphrase := h (paraphrase r)\<rparr>) records)"
  by (induction records) auto

lemma transformHtmlRecords_result:
  assumes "transformHtmlRecords env records modulePath g = (Inr out, g')"
  shows "\<exists>f. transformHtml g' = Some f \<and> mapRecords f records = Some out"
  using assms
  by (auto simp: transformHtmlRecords_def applyCached_def Let_def
           split: if_splits Module.splits option.splits)

subsection \<open>Partitioner\<close>

lemma fold_splitStep:
  "fold splitStep records (hs, ls) =
     (hs @ filter (\<lambda>r. content_type r = Some HTML) records,
      ls @ filter (\<lambda>r. content_type r = Some LINK) records)"
  by (induction records arbitrary: hs ls) (auto simp: splitStep_def HTML_def LINK_def)

lemma take_drop_chunk: "take C (drop i xs) @ drop (i + C) xs = drop i xs"
  by (metis add.commute append_take_drop_id drop_drop)

lemma chunkLoop_step:
  "i < length xs \<Longrightarrow>
   chunkLoop xs C i acc = chunkLoop xs C (i + C) (acc @ [take C (drop i xs)])"
  by (subst chunkLoop.simps) (simp add: slice_def)

lemma chunkLoop_stop: "\<not> i < length xs \<Longrightarrow> chunkLoop xs C i acc = Some acc"
  by (subst chunkLoop.simps) simp

lemma chunkLoop_Some:
  assumes "0 < C"
  shows "\<exists>cs. chunkLoop xs C i acc = Some (acc @ cs) \<and> concat cs = drop i xs \<and>
          (\<forall>c \<in> set cs. c \<noteq> [] \<and> length c \<le> C)"
proof (induction "length xs - i" arbitrary: i acc rule: less_induct)
  case less
  show ?case
  proof (cases "i < length xs")
    case False
    then have "chunkLoop xs C i acc = Some (acc @ [])" by (simp add: chunkLoop_stop)
    moreover have "concat [] = drop i xs" using False by simp
    ultimately show ?thesis by fastforce
  next
    case True
    have "length xs - (i + C) < length xs - i" using True assms by arith
    from less[OF this, of "acc @ [take C (drop i xs)]"]
    obtain cs where cs: "chunkLoop xs C (i + C) (acc @ [take C (drop i xs)]) = Some ((acc @ [take C (drop i xs)]) @ cs)"
      "concat cs = drop (i + C) xs" "\<forall>c \<in> set cs. c \<noteq> [] \<and> length c \<le> C" by blast
    have a: "chunkLoop xs C i acc = Some (acc @ (take C (drop i xs) # cs))"
      using cs(1) by (simp add: chunkLoop_step[OF True])
    have b: "concat (take C (drop i xs) # cs) = drop i xs"
      using cs(2) by (simp add: take_drop_chunk)
    have "take C (drop i xs) \<noteq> []" using True assms by simp
    moreover have "length (take C (drop i xs)) \<le> C" by simp
    ultimately have c: "\<forall>c \<in> set (take C (drop i xs) # cs). c \<noteq> [] \<and> length c \<le> C"
      using cs(3) by simp
    from a b c show ?thesis by blast
  qed
qed

lemma chunkLoop_zero:
  assumes "chunkLoop xs C i acc = Some y"
  shows "C \<noteq> 0 \<or> \<not> i < length xs"
proof (rule chunkLoop.raw_induct[where P = "\<lambda>xs C i acc y. C \<noteq> 0 \<or> \<not> i < length xs"])
  show "chunkLoop xs C i acc = Some y" by fact
next
  fix loop :: "'a list \<Rightarrow> nat \<Rightarrow> nat \<Rightarrow> 'a list list \<Rightarrow> 'a list list option"
  fix htmlRecords chunkSize i chunks y
  assume IH: "\<And>htmlRecords chunkSize i chunks y.
      loop htmlRecords chunkSize i chunks = Some y \<Longrightarrow> chunkSize \<noteq> 0 \<or> \<not> i < length htmlRecords"
    and step: "(if i < length htmlRecords
        then loop htmlRecords chunkSize (i + chunkSize)
               (chunks @ [slice htmlRecords i (i + chunkSize)])
      else Some chunks) = Some y"
  show "chunkSize \<noteq> 0 \<or> \<not> i < length htmlRecords"
  proof (cases "i < length htmlRecords")
    case True
    with step have "loop htmlRecords chunkSize (i + chunkSize)
               (chunks @ [slice htmlRecords i (i + chunkSize)]) = Some y" by simp
    from IH[OF this] True show ?thesis by (cases "chunkSize = 0") simp_all
  next
    case False
    then show ?thesis by simp
  qed
qed

lemma chunkLoop_diverges: "i < length xs \<Longrightarrow> chunkLoop xs 0 i acc = None"
proof (cases "chunkLoop xs 0 i acc")
  case None
  then show ?thesis .
next
  case (Some y)
  assume "i < length xs"
  with chunkLoop_zero[OF Some] show ?thesis by simp
qed

lemma cacheSound_hit:
  "cacheSound env g \<Longrightarrow> transformHtml g = Some f' \<Longrightarrow> transformModulePath g = Some p \<Longrightarrow>
   files env p = Exports f'"
  by (simp add: cacheSound_def)

lemma transformHtmlRecords_sound:
  assumes "files env p = Exports f" and "cacheSound env g"
  shows "transformHtmlRecords env records p g =
           (settle f records,
            if transformHtml g = None \<or> transformModulePath g \<noteq> Some p
            then g\<lparr>importLog := importLog g @ [p], transformHtml := Some f, transformModulePath := Some p\<rparr>
            else g)"
proof (cases "transformHtml g = None \<or> transformModulePath g \<noteq> Some p")
  case True
  then show ?thesis using assms(1)
    by (simp add: transformHtmlRecords_def applyCached_def settle_def Let_def)
next
  case False
  then obtain f' where f': "transformHtml g = Some f'" "transformModulePath g = Some p" by auto
  from cacheSound_hit[OF assms(2) f'] assms(1) have "f' = f" by simp
  with f' show ?thesis
    by (simp add: transformHtmlRecords_def applyCached_def settle_def)
qed

lemma transformHtmlRecords_cacheSound:
  assumes "cacheSound env g"
  shows "cacheSound env (snd (transformHtmlRecords env records p g))"
proof (cases "transformHtml g = None \<or> transformModulePath g \<noteq> Some p")
  case True
  show ?thesis
  proof (cases "files env p")
    case (Exports f)
    with True show ?thesis
      by (simp add: transformHtmlRecords_def Let_def cacheSound_def)
  next
    case NotFound
    with True assms show ?thesis
      by (simp add: transformHtmlRecords_def Let_def cacheSound_def)
  next
    case ImportFails
    with True assms show ?thesis
      by (simp add: transformHtmlRecords_def Let_def cacheSound_def)
  next
    case WrongShape
    with True assms show ?thesis
      by (simp add: transformHtmlRecords_def Let_def cacheSound_def)
  qed
next
  case False
  then obtain f' where "transformHtml g = Some f'" "transformModulePath g = Some p" by auto
  then have "transformHtmlRecords env records p g = (applyCached records g, g)"
    by (simp add: transformHtmlRecords_def)
  with assms show ?thesis by simp
qed

lemma pool_exec_frame:
  "target (snd (pool_exec env chunk p world)) = target world"
  "insertSizes (snd (pool_exec env chunk p world)) = insertSizes world"
  "poolsCreated (snd (pool_exec env chunk p world)) = poolsCreated world"
  "poolsTerminated (snd (pool_exec env chunk p world)) = poolsTerminated world"
  "dispatched (snd (pool_exec env chunk p world)) = Suc (dispatched world)"
  by (simp_all add: pool_exec_def Let_def split_beta)

lemma pool_exec_sound:
  assumes "\<forall>w. cacheSound env (workers world w)"
  shows "\<forall>w. cacheSound env (workers (snd (pool_exec env chunk p world)) w)"
  using assms by (simp add: pool_exec_def Let_def split_beta transformHtmlRecords_cacheSound)

lemma pool_exec_result:
  assumes "files env p = Exports f" and "\<forall>w. cacheSound env (workers world w)"
  shows "fst (pool_exec env chunk p world) = settle f chunk"
  using assms by (simp add: pool_exec_def Let_def split_beta transformHtmlRecords_sound)

lemma execChunks_frame:
  "target (snd (execChunks env p chunks world)) = target world"
  "insertSizes (snd (execChunks env p chunks world)) = insertSizes world"
  "poolsCreated (snd (execChunks env p chunks world)) = poolsCreated world"
  "poolsTerminated (snd (execChunks env p chunks world)) = poolsTerminated world"
  "dispatched (snd (execChunks env p chunks world)) = dispatched world + length chunks"
  by (induction chunks arbitrary: world; simp add: split_beta pool_exec_frame)+

lemma execChunks_sound:
  "\<forall>w. cacheSound env (workers world w) \<Longrightarrow>
   \<forall>w. cacheSound env (workers (snd (execChunks env p chunks world)) w)"
proof (induction chunks arbitrary: world)
  case Nil
  then show ?case by simp
next
  case (Cons chunk chunks)
  from Cons.IH[OF pool_exec_sound[OF Cons.prems]] show ?case
    by (simp add: split_beta)
qed

lemma execChunks_result:
  assumes "files env p = Exports f"
  shows "\<forall>w. cacheSound env (workers world w) \<Longrightarrow>
         fst (execChunks env p chunks world) = map (settle f) chunks"
proof (induction chunks arbitrary: world)
  case Nil
  then show ?case by simp
next
  case (Cons chunk chunks)
  from Cons.IH[OF pool_exec_sound[OF Cons.prems]] pool_exec_result[OF assms Cons.prems]
  show ?case by (simp add: split_beta)
qed

lemma settle_total:
  "(\<forall>r \<in> set records. f (paraphrase r) = Some (h (paraphrase r))) \<Longrightarrow>
   settle f records = Inr (map (transformed h) records)"
  using mapRecords_total[of records f h] by (simp add: settle_def transformed_def)

lemma promiseAll_settle:
  "(\<forall>r \<in> set (concat chunks). f (paraphrase r) = Some (h (paraphrase r))) \<Longrightarrow>
   promiseAll (map (settle f) chunks) = Inr (map (map (transformed h)) chunks)"
proof (induction chunks)
  case Nil
  then show ?case by simp
next
  case (Cons chunk chunks)
  then have "settle f chunk = Inr (map (transformed h) chunk)"
    by (intro settle_total) simp
  moreover from Cons have "promiseAll (map (settle f) chunks) = Inr (map (map (transformed h)) chunks)"
    by simp
  ultimately show ?case by simp
qed

lemma toUpperCase_example:
  "toUpperCase ''ab'' = ''AB''" "toUpperCase ''cd'' = ''CD''" "toUpperCase ''ef'' = ''EF''"
  by code_simp+

lemma transformHtmlRecordsInParallel_ok:
  assumes "0 < chunkSize"
    and "files env (resolve env modulePath) = Exports f"
    and "\<forall>r \<in> set htmlRecords. f (paraphrase r) = Some (h (paraphrase r))"
    and "\<forall>w. cacheSound env (workers world w)"
  shows "\<exists>chunks.
           chunkLoop htmlRecords chunkSize 0 [] = Some chunks \<and>
           concat chunks = htmlRecords \<and>
           (\<forall>c \<in> set chunks. c \<noteq> [] \<and> length c \<le> chunkSize) \<and>
           transformHtmlRecordsInParallel env htmlRecords modulePath chunkSize world =
             Some (Inr (map (transformed h) htmlRecords),
                   snd (execChunks env (resolve env modulePath) chunks world))"
proof -
  from chunkLoop_Some[OF assms(1), of htmlRecords 0 "[]"]
  obtain chunks where c: "chunkLoop htmlRecords chunkSize 0 [] = Some chunks"
    "concat chunks = htmlRecords" "\<forall>c \<in> set chunks. c \<noteq> [] \<and> length c \<le> chunkSize"
    by auto
  have r: "fst (execChunks env (resolve env modulePath) chunks world) = map (settle f) chunks"
    by (rule execChunks_result[OF assms(2) assms(4)])
  have p: "promiseAll (map (settle f) chunks) = Inr (map (map (transformed h)) chunks)"
    using assms(3) c(2) by (intro promiseAll_settle) simp
  have "concat (map (map (transformed h)) chunks) = map (transformed h) htmlRecords"
    using c(2) by (simp add: map_concat[symmetric])
  with c(1) r p
  have "transformHtmlRecordsInParallel env htmlRecords modulePath chunkSize world =
             Some (Inr (map (transformed h) htmlRecords),
                   snd (execChunks env (resolve env modulePath) chunks world))"
    by (simp add: transformHtmlRecordsInParallel_def split_beta)
  with c show ?thesis by blast
qed

subsection \<open>The loop over a generator\<close>

lemma for_await_error:
  "gen_next gs world = Some (Inl e, gs1, world1) \<Longrightarrow>
   for_await gen_next loopBody gs world = Some (Inl e, gs1, world1)"
  by (subst for_await.simps) simp

lemma for_await_done:
  "gen_next gs world = Some (Inr None, gs1, world1) \<Longrightarrow>
   for_await gen_next loopBody gs world = Some (Inr (), gs1, world1)"
  by (subst for_await.simps) simp

lemma for_await_step:
  "gen_next gs world = Some (Inr (Some page), gs1, world1) \<Longrightarrow> loopBody page world1 = Inr world2 \<Longrightarrow>
   for_await gen_next loopBody gs world = for_await gen_next loopBody gs1 world2"
  by (subst for_await.simps) simp

text \<open>
  Induction over the turns of a loop that returns: the property holds of every way in which
  a turn ends the loop, and passes from the rest of the loop to the loop.
\<close>

lemma for_await_induct:
  fixes gen :: "GenState \<Rightarrow> World \<Rightarrow> ((Error + MdxRecord list option) \<times> GenState \<times> World) option"
  assumes run: "for_await gen body gs world = Some y"
    and err: "\<And>gs world e gs1 world1.
        gen gs world = Some (Inl e, gs1, world1) \<Longrightarrow> P gs world (Inl e, gs1, world1)"
    and fin: "\<And>gs world gs1 world1.
        gen gs world = Some (Inr None, gs1, world1) \<Longrightarrow> P gs world (Inr (), gs1, world1)"
    and abandon: "\<And>gs world page gs1 world1 e.
        gen gs world = Some (Inr (Some page), gs1, world1) \<Longrightarrow> body page world1 = Inl e \<Longrightarrow>
        P gs world (Inl e, fst (generator_return gs1 world1), snd (generator_return gs1 world1))"
    and step: "\<And>gs world page gs1 world1 world2 y.
        gen gs world = Some (Inr (Some page), gs1, world1) \<Longrightarrow> body page world1 = Inr world2 \<Longrightarrow>
        P gs1 world2 y \<Longrightarrow> P gs world y"
  shows "P gs world y"
proof -
  have "gen = gen \<longrightarrow> body = body \<longrightarrow> P gs world y"
  proof (rule for_await.raw_induct[where P = "\<lambda>g b s w y. g = gen \<longrightarrow> b = body \<longrightarrow> P s w y"])
    show "for_await gen body gs world = Some y" by (rule run)
  next
    fix loop :: "(GenState \<Rightarrow> World \<Rightarrow> ((Error + MdxRecord list option) \<times> GenState \<times> World) option) \<Rightarrow>
                 (MdxRecord list \<Rightarrow> World \<Rightarrow> Error + World) \<Rightarrow>
                 GenState \<Rightarrow> World \<Rightarrow> ((Error + unit) \<times> GenState \<times> World) option"
    fix gen_next loopBody gs world y
    assume IH: "\<And>gen_next loopBody gs world y.
        loop gen_next loopBody gs world = Some y \<Longrightarrow> gen_next = gen \<longrightarrow> loopBody = body \<longrightarrow> P gs world y"
      and unfold: "(case gen_next gs world of
          None \<Rightarrow> None
        | Some (Inl e, gs1, world1) \<Rightarrow> Some (Inl e, gs1, world1)
        | Some (Inr None, gs1, world1) \<Rightarrow> Some (Inr (), gs1, world1)
        | Some (Inr (Some page), gs1, world1) \<Rightarrow>
            (case loopBody page world1 of
               Inl e \<Rightarrow> (case generator_return gs1 world1 of (gs2, world2) \<Rightarrow> Some (Inl e, gs2, world2))
             | Inr world2 \<Rightarrow> loop gen_next loopBody gs1 world2)) = Some y"
    show "gen_next = gen \<longrightarrow> loopBody = body \<longrightarrow> P gs world y"
    proof (intro impI)
      assume eq: "gen_next = gen" "loopBody = body"
      show "P gs world y"
      proof (cases "gen gs world")
        case None
        with unfold show ?thesis unfolding eq by simp
      next
        case (Some out)
        obtain r gs1 world1 where out: "out = (r, gs1, world1)" by (cases out)
        show ?thesis
        proof (cases r)
          case (Inl e)
          with unfold Some out have "y = (Inl e, gs1, world1)" unfolding eq by simp
          with err[of gs world e gs1 world1] Some out Inl show ?thesis by simp
        next
          case (Inr p)
          show ?thesis
          proof (cases p)
            case None
            with unfold Some out Inr have "y = (Inr (), gs1, world1)" unfolding eq by simp
            with fin[of gs world gs1 world1] Some out Inr None show ?thesis by simp
          next
            case page: (Some page)
            have pull: "gen gs world = Some (Inr (Some page), gs1, world1)"
              using Some out Inr page by simp
            show ?thesis
            proof (cases "body page world1")
              case (Inl e)
              with unfold pull
              have "y = (Inl e, fst (generator_return gs1 world1), snd (generator_return gs1 world1))"
                unfolding eq by (simp add: split_beta)
              with abandon[OF pull Inl] show ?thesis by simp
            next
              case inr: (Inr world2)
              with unfold pull have "loop gen body gs1 world2 = Some y" unfolding eq by simp
              from IH[OF this] have "P gs1 world2 y" by simp
              from step[OF pull inr this] show ?thesis .
            qed
          qed
        qed
      qed
    qed
  qed
  then show ?thesis by simp
qed

text \<open>A generator that yields at the state it resumed from never ends the loop.\<close>

lemma for_await_never:
  fixes gen :: "GenState \<Rightarrow> World \<Rightarrow> ((Error + MdxRecord list option) \<times> GenState \<times> World) option"
  assumes stuck: "\<forall>world. I world \<longrightarrow>
      (\<exists>page world1 world2. gen gs world = Some (Inr (Some page), gs, world1) \<and>
         body page world1 = Inr world2 \<and> I world2)"
    and start: "I world"
  shows "for_await gen body gs world = None"
proof (cases "for_await gen body gs world")
  case None
  then show ?thesis .
next
  case (Some y)
  have "s = gs \<longrightarrow> \<not> I w" if "for_await gen body s w = Some y" for s w
  proof (rule for_await_induct[where P = "\<lambda>s w y. s = gs \<longrightarrow> \<not> I w", OF that])
    fix s w e gs1 world1
    assume "gen s w = Some (Inl e, gs1, world1)"
    with stuck show "s = gs \<longrightarrow> \<not> I w" by fastforce
  next
    fix s w gs1 world1
    assume "gen s w = Some (Inr None, gs1, world1)"
    with stuck show "s = gs \<longrightarrow> \<not> I w" by fastforce
  next
    fix s w page gs1 world1 e
    assume "gen s w = Some (Inr (Some page), gs1, world1)" "body page world1 = Inl e"
    with stuck show "s = gs \<longrightarrow> \<not> I w" by fastforce
  next
    fix s w page gs1 world1 world2 and y :: "(Error + unit) \<times> GenState \<times> World"
    assume pull: "gen s w = Some (Inr (Some page), gs1, world1)"
      and b: "body page world1 = Inr world2"
      and IH: "gs1 = gs \<longrightarrow> \<not> I world2"
    show "s = gs \<longrightarrow> \<not> I w"
    proof (intro impI notI)
      assume s: "s = gs" and i: "I w"
      from stuck i obtain page' world1' world2' where
        p: "gen gs w = Some (Inr (Some page'), gs, world1')" "body page' world1' = Inr world2'"
           "I world2'" by blast
      from pull p(1) s have "page' = page" "gs1 = gs" "world1' = world1" by simp_all
      with p(2,3) b have "gs1 = gs" "I world2" by simp_all
      with IH show False by simp
    qed
  qed
  from this[OF Some] start show ?thesis by simp
qed

subsection \<open>Page cursor\<close>

lemma aboveWatermark_simps [simp]:
  "aboveWatermark (Some w) r = (w < row_id r)"
  "aboveWatermark None r = False"
  by (simp_all add: aboveWatermark_def)

lemma spacing_small: "a < 2 ^ 53 \<Longrightarrow> spacing a = 1"
  by (subst spacing.simps) simp

lemma spacing_step: "\<not> a < 2 ^ 53 \<Longrightarrow> spacing a = 2 * spacing (a div 2)"
  by (subst spacing.simps) simp

text \<open>Every integer up to \<open>2 ^ 53\<close> in magnitude is read as the number of the same value.\<close>

lemma toNumber_exact:
  assumes "\<bar>n\<bar> \<le> 2 ^ 53"
  shows "toNumber n = n"
proof (cases "nat \<bar>n\<bar> < 2 ^ 53")
  case True
  then show ?thesis by (simp add: toNumber_def Let_def spacing_small)
next
  case False
  with assms have a: "nat \<bar>n\<bar> = 9007199254740992" by simp
  have "spacing 9007199254740992 = 2 * spacing 4503599627370496"
    by (subst spacing_step) simp_all
  also have "spacing 4503599627370496 = 1" by (rule spacing_small) simp
  finally have s: "spacing 9007199254740992 = 2" by simp
  from a have "n = 9007199254740992 \<or> n = - 9007199254740992" by arith
  then show ?thesis by (auto simp: toNumber_def Let_def s)
qed

lemma selectPage_rows:
  "\<exists>rows. selectPage db contentType lastRowId pageSize = map recordOfRow rows \<and>
          length rows \<le> pageSize \<and> sorted (map row_id rows) \<and>
          (\<forall>r \<in> set rows. r \<in> set db \<and> matchesType contentType r \<and> aboveWatermark lastRowId r)"
proof -
  let ?all = "sort_key row_id (filter (\<lambda>r. matchesType contentType r \<and> aboveWatermark lastRowId r) db)"
  have "sorted (map row_id ?all)" by simp
  then have s: "sorted (map row_id (take pageSize ?all))"
    by (simp add: take_map[symmetric] sorted_wrt_take)
  have m: "\<forall>r \<in> set (take pageSize ?all). r \<in> set db \<and> matchesType contentType r \<and> aboveWatermark lastRowId r"
  proof
    fix r assume "r \<in> set (take pageSize ?all)"
    then have "r \<in> set ?all" by (rule in_set_takeD)
    then show "r \<in> set db \<and> matchesType contentType r \<and> aboveWatermark lastRowId r" by simp
  qed
  have "selectPage db contentType lastRowId pageSize = map recordOfRow (take pageSize ?all)"
    by (simp add: selectPage_def)
  moreover have "length (take pageSize ?all) \<le> pageSize" by simp
  ultimately show ?thesis using s m by blast
qed

lemma pagePull_end:
  assumes "\<not> sourceFault env (PageQuery contentType lastRowId)"
    and "selectPage db contentType lastRowId pageSize = []"
  shows "pagePull env db contentType pageSize body lastRowId world =
           Some (Inr None, Finished, pool_terminate world)"
  using assms by (simp add: pagePull_def fetchRecordsPaginated_def)

lemma insertRecords_empty:
  "\<not> targetFault env (length (target world)) \<Longrightarrow>
   insertRecords env [] world = Inr (world\<lparr>insertSizes := insertSizes world @ [0]\<rparr>)"
  by (simp add: insertRecords_def)

lemma fetchLinkRecords_empty: "fetchLinkRecords [] = []"
  by (simp add: fetchLinkRecords_def fetchRecords_def)

lemma validateModuleExists_ok: "existsSync env modulePath \<Longrightarrow> validateModuleExists env modulePath = Inr ()"
  by (simp add: validateModuleExists_def)

lemma getTotalRecordCount_ok:
  "\<not> sourceFault env (CountQuery contentType) \<Longrightarrow>
   getTotalRecordCount env db contentType = Inr (length (filter (matchesType contentType) db))"
  by (simp add: getTotalRecordCount_def)

lemma empty_source_run:
  assumes "existsSync env modulePath"
    and "\<forall>q. \<not> sourceFault env q"
    and "\<not> targetFault env (length (target world))"
  shows "\<exists>world'. runTransformWorkflowWith pageSize chunkSize env [] modulePath options world
                     = Some (Inr (), world') \<and>
                   target world' = target world \<and> dispatched world' = dispatched world \<and>
                   insertSizes world' =
                     insertSizes world @ (if optionsHtmlBeforeLink options then [0] else [])"
proof -
  have sel: "selectPage [] t (Some 0) pageSize = []" for t by (simp add: selectPage_def)
  have nf: "\<not> sourceFault env q" for q using assms(2) by simp
  let ?w1 = "pool_terminate (pool_create world)"
  have w1: "target ?w1 = target world" "dispatched ?w1 = dispatched world"
    "insertSizes ?w1 = insertSizes world"
    by (simp_all add: pool_terminate_def pool_create_def)
  have a: "for_await (processRecordsInParallel env [] modulePath pageSize chunkSize)
             (insertRecords env) Fresh world = Some (Inr (), Finished, ?w1)"
    by (rule for_await_done)
       (simp add: processRecordsInParallel_def generator_next_def pagePull_end[OF nf sel])
  have b: "for_await (transformHtmlRecordsInParallel_gen env [] modulePath pageSize chunkSize)
             (insertRecords env) Fresh world = Some (Inr (), Finished, ?w1)"
    by (rule for_await_done)
       (simp add: transformHtmlRecordsInParallel_gen_def generator_next_def pagePull_end[OF nf sel])
  have c: "insertRecords env (fetchLinkRecords []) ?w1 = Inr (?w1\<lparr>insertSizes := insertSizes ?w1 @ [0]\<rparr>)"
    unfolding fetchLinkRecords_empty using assms(3) w1(1) by (intro insertRecords_empty) simp
  show ?thesis
  proof (cases "optionsHtmlBeforeLink options")
    case True
    then have "runTransformWorkflowWith pageSize chunkSize env [] modulePath options world
        = Some (Inr (), ?w1\<lparr>insertSizes := insertSizes ?w1 @ [0]\<rparr>)"
      using assms(1) nf
      by (simp add: runTransformWorkflowWith_def validateModuleExists_ok getTotalRecordCount_ok b c)
    then show ?thesis using w1 True by simp
  next
    case False
    then have "runTransformWorkflowWith pageSize chunkSize env [] modulePath options world
        = Some (Inr (), ?w1)"
      using assms(1) nf
      by (simp add: runTransformWorkflowWith_def validateModuleExists_ok getTotalRecordCount_ok a)
    then show ?thesis using w1 False by simp
  qed
qed

subsection \<open>Pool counters\<close>





lemma pool_terminate_counters:
  "poolsCreated (pool_terminate world) = poolsCreated world"
  "poolsTerminated (pool_terminate world) = Suc (poolsTerminated world)"
  "target (pool_terminate world) = target world"
  "insertSizes (pool_terminate world) = insertSizes world"
  "dispatched (pool_terminate world) = dispatched world"
  "workers (pool_terminate world) = workers world"
  by (simp_all add: pool_terminate_def)

lemma pool_create_counters:
  "poolsCreated (pool_create world) = Suc (poolsCreated world)"
  "poolsTerminated (pool_create world) = poolsTerminated world"
  "target (pool_create world) = target world"
  "insertSizes (pool_create world) = insertSizes world"
  "dispatched (pool_create world) = dispatched world"
  "workers (pool_create world) = (\<lambda>_. freshGlobals)"
  by (simp_all add: pool_create_def)


lemma generator_next_simps:
  "generator_next env db contentType pageSize body (Suspended lw) world
     = pagePull env db contentType pageSize body lw world"
  "generator_next env db contentType pageSize body Fresh world
     = pagePull env db contentType pageSize body (Some 0) (pool_create world)"
  "generator_next env db contentType pageSize body Finished world = Some (Inr None, Finished, world)"
  by (simp_all add: generator_next_def)

lemma for_await_Fresh:
  "for_await (generator_next env db contentType pageSize body) loopBody Fresh world
     = for_await (generator_next env db contentType pageSize body) loopBody
         (Suspended (Some 0)) (pool_create world)"
  using for_await.simps[of "generator_next env db contentType pageSize body" loopBody Fresh world]
    for_await.simps[of "generator_next env db contentType pageSize body" loopBody
      "Suspended (Some 0)" "pool_create world"]
  by (simp add: generator_next_simps)



subsection \<open>Destination writer\<close>

lemma contents_insertRow: "contents (insertRow env record db) = contents db @ [stored record]"
  by (simp add: contents_def insertRow_def stored_def)

lemma contents_fold_insertRow:
  "contents (fold (insertRow env) records db) = contents db @ map stored records"
  by (induction records arbitrary: db) (simp_all add: contents_insertRow)

lemma insertRecords_ok:
  assumes "\<not> targetFault env (length (target world))"
  shows "\<exists>world2. insertRecords env records world = Inr world2 \<and>
           contents (target world2) = contents (target world) @ map stored records \<and>
           insertSizes world2 = insertSizes world @ [length records] \<and>
           workers world2 = workers world \<and> dispatched world2 = dispatched world \<and>
           samePools world world2"
  using assms by (simp add: insertRecords_def contents_fold_insertRow samePools_def)

lemma insertRecords_written:
  assumes "insertRecords env records world = Inr world2"
  shows "contents (target world2) = contents (target world) @ map stored records"
  using assms by (auto simp: insertRecords_def contents_fold_insertRow split: if_splits)

subsection \<open>Paging covers the source\<close>

lemma exactRowids_bound: "\<forall>r \<in> set db. \<bar>row_id r\<bar> \<le> 2 ^ 53 \<Longrightarrow> exactRowids db"
  by (simp add: exactRowids_def toNumber_exact)

lemma selectPage_pending:
  "selectPage db contentType lw pageSize = map recordOfRow (take pageSize (pending db contentType lw))"
proof -
  have "filter (\<lambda>r. matchesType contentType r \<and> aboveWatermark lw r) db
          = filter (aboveWatermark lw) (filter (matchesType contentType) db)"
    by (simp add: conj_commute)
  then show ?thesis
    by (simp add: selectPage_def pending_def filter_sort)
qed

lemma pending_strict:
  assumes "distinct (map row_id db)"
  shows "sorted_wrt (<) (map row_id (pending db contentType lw))"
proof -
  let ?S = "sort_key row_id (filter (matchesType contentType) db)"
  have "distinct (map row_id (filter (matchesType contentType) db))"
    using assms by (rule distinct_map_filter)
  moreover have "mset (map row_id ?S) = mset (map row_id (filter (matchesType contentType) db))"
    by simp
  ultimately have "distinct (map row_id ?S)"
    using mset_eq_imp_distinct_iff by blast
  moreover have "sorted (map row_id ?S)" by simp
  ultimately have "sorted_wrt (<) (map row_id ?S)"
    by (simp add: strict_sorted_iff)
  then have "sorted_wrt (\<lambda>a b. row_id a < row_id b) ?S" by (simp add: sorted_wrt_map)
  then have "sorted_wrt (\<lambda>a b. row_id a < row_id b) (filter (aboveWatermark lw) ?S)"
    by (rule sorted_wrt_filter)
  then show ?thesis by (simp add: pending_def sorted_wrt_map)
qed

lemma strict_split:
  fixes f :: "'a \<Rightarrow> int"
  assumes "sorted_wrt (<) (map f (as @ bs))" and "as \<noteq> []"
  shows "filter (\<lambda>r. f (last as) < f r) (as @ bs) = bs"
proof -
  from assms(1) have s: "sorted_wrt (<) (map f as)" "sorted_wrt (<) (map f bs)"
    and cross: "\<forall>a \<in> set as. \<forall>b \<in> set bs. f a < f b"
    by (auto simp: sorted_wrt_append)
  from s(1) have srt: "sorted (map f as)" by (simp add: strict_sorted_iff)
  have le: "\<forall>a \<in> set as. \<not> f (last as) < f a"
  proof
    fix a assume "a \<in> set as"
    then obtain i where i: "i < length as" "as ! i = a" by (auto simp: in_set_conv_nth)
    have "map f as ! i \<le> map f as ! (length as - 1)"
      using srt i(1) by (intro sorted_nth_mono) simp_all
    then have "f a \<le> f (as ! (length as - 1))" using i assms(2) by simp
    then show "\<not> f (last as) < f a" using assms(2) by (simp add: last_conv_nth)
  qed
  have "last as \<in> set as" using assms(2) by simp
  with cross have gt: "\<forall>b \<in> set bs. f (last as) < f b" by blast
  from le have "filter (\<lambda>r. f (last as) < f r) as = []" by (simp add: filter_empty_conv)
  moreover from gt have "filter (\<lambda>r. f (last as) < f r) bs = bs" by (simp add: filter_id_conv)
  ultimately show ?thesis by simp
qed

lemma pending_above:
  "r \<in> set (pending db contentType lw) \<Longrightarrow>
   aboveWatermark lw r \<and> r \<in> set db \<and> matchesType contentType r"
  by (auto simp: pending_def)

lemma pending_next:
  assumes "distinct (map row_id db)" and "0 < pageSize" and "pending db contentType (Some w) \<noteq> []"
  shows "pending db contentType (Some (row_id (last (take pageSize (pending db contentType (Some w))))))
           = drop pageSize (pending db contentType (Some w))"
proof -
  let ?xs = "pending db contentType (Some w)"
  let ?as = "take pageSize ?xs"
  let ?l = "last ?as"
  let ?S = "sort_key row_id (filter (matchesType contentType) db)"
  have ne: "?as \<noteq> []" using assms(2,3) by simp
  then have "?l \<in> set ?as" by simp
  then have "?l \<in> set ?xs" by (rule in_set_takeD)
  then have wl: "w < row_id ?l" using pending_above[of ?l db contentType "Some w"] by simp
  have "pending db contentType (Some (row_id ?l)) = filter (\<lambda>r. row_id ?l < row_id r) ?S"
    by (simp add: pending_def cong: filter_cong)
  also have "\<dots> = filter (\<lambda>r. row_id ?l < row_id r) (filter (\<lambda>r. w < row_id r) ?S)"
    using wl by (auto intro: filter_cong)
  also have "\<dots> = filter (\<lambda>r. row_id ?l < row_id r) (?as @ drop pageSize ?xs)"
    by (simp add: pending_def cong: filter_cong)
  also have "\<dots> = drop pageSize ?xs"
  proof (rule strict_split[OF _ ne])
    show "sorted_wrt (<) (map row_id (?as @ drop pageSize ?xs))"
      using pending_strict[OF assms(1), of contentType "Some w"] by simp
  qed
  finally show ?thesis .
qed

lemma fetchRecordsPaginated_pending:
  "fetchRecordsPaginated db contentType pageSize lw =
     (if pageSize = 0 \<or> pending db contentType lw = [] then None
      else Some (map recordOfRow (take pageSize (pending db contentType lw))))"
  by (auto simp: fetchRecordsPaginated_def selectPage_pending Let_def)

lemma rowid_last_page:
  "rows \<noteq> [] \<Longrightarrow> rowid (last (map recordOfRow rows)) = Some (toNumber (row_id (last rows)))"
  by (simp add: last_map recordOfRow_def)

text \<open>With exact rowids the watermark read from a page is the rowid of its last row.\<close>

lemma watermark_exact:
  assumes "exactRowids db" and "0 < pageSize" and "pending db contentType lw \<noteq> []"
  shows "rowid (last (map recordOfRow (take pageSize (pending db contentType lw))))
           = Some (row_id (last (take pageSize (pending db contentType lw))))"
proof -
  let ?rows = "take pageSize (pending db contentType lw)"
  have ne: "?rows \<noteq> []" using assms(2,3) by simp
  then have "last ?rows \<in> set ?rows" by simp
  then have "last ?rows \<in> set (pending db contentType lw)" by (rule in_set_takeD)
  then have "last ?rows \<in> set db" using pending_above by blast
  with assms(1) have "toNumber (row_id (last ?rows)) = row_id (last ?rows)"
    by (simp add: exactRowids_def)
  with rowid_last_page[OF ne] show ?thesis by simp
qed

subsection \<open>Reassembly of a page\<close>

lemma assignLoop_refs:
  assumes "distinct refs" and "\<forall>i \<in> set refs. i < length records"
    and "\<forall>i \<in> set refs. records ! i = orig ! i"
  shows "assignLoop refs (map (\<lambda>i. transformed h (orig ! i)) refs) records =
           Inr (map (\<lambda>j. if j \<in> set refs then transformed h (orig ! j) else records ! j)
                  [0..<length records])"
  using assms
proof (induction refs arbitrary: records)
  case Nil
  then show ?case by (simp add: map_nth)
next
  case (Cons ref rest)
  let ?records' = "records[ref := (records ! ref)\<lparr>paraphrase := paraphrase (transformed h (orig ! ref))\<rparr>]"
  have upd: "(records ! ref)\<lparr>paraphrase := paraphrase (transformed h (orig ! ref))\<rparr>
               = transformed h (orig ! ref)"
    using Cons.prems(3) by (simp add: transformed_def)
  have ref: "ref < length records" "ref \<notin> set rest" using Cons.prems(1,2) by simp_all
  have a: "distinct rest" using Cons.prems(1) by simp
  have b: "\<forall>i \<in> set rest. i < length ?records'" using Cons.prems(2) by simp
  have c: "\<forall>i \<in> set rest. ?records' ! i = orig ! i"
  proof
    fix i assume i: "i \<in> set rest"
    with ref(2) have "ref \<noteq> i" by blast
    then have "?records' ! i = records ! i" by (rule nth_list_update_neq)
    with Cons.prems(3) i show "?records' ! i = orig ! i" by simp
  qed
  have "assignLoop (ref # rest) (map (\<lambda>i. transformed h (orig ! i)) (ref # rest)) records
          = assignLoop rest (map (\<lambda>i. transformed h (orig ! i)) rest) ?records'"
    by simp
  also have "\<dots> = Inr (map (\<lambda>j. if j \<in> set rest then transformed h (orig ! j) else ?records' ! j)
                  [0..<length ?records'])"
    by (rule Cons.IH[OF a b c])
  also have "map (\<lambda>j. if j \<in> set rest then transformed h (orig ! j) else ?records' ! j)
                  [0..<length ?records']
           = map (\<lambda>j. if j \<in> set (ref # rest) then transformed h (orig ! j) else records ! j)
                  [0..<length records]"
    using ref(1) by (auto simp: upd nth_list_update)
  finally show ?case .
qed

lemma htmlRefs_props:
  "distinct (htmlRefs records)"
  "\<forall>i \<in> set (htmlRefs records). i < length records"
  "j \<in> set (htmlRefs records) \<longleftrightarrow> j < length records \<and> content_type (records ! j) = Some HTML"
  by (auto simp: htmlRefs_def)

lemma htmlRefs_records:
  "map (\<lambda>i. records ! i) (htmlRefs records) = filter (\<lambda>r. content_type r = Some HTML) records"
proof -
  have "map (\<lambda>i. records ! i) (filter (\<lambda>i. content_type (records ! i) = Some HTML) [0..<length records])
          = filter (\<lambda>r. content_type r = Some HTML) (map (\<lambda>i. records ! i) [0..<length records])"
    by (simp add: filter_map comp_def)
  then show ?thesis by (simp add: htmlRefs_def map_nth)
qed

lemma assignLoop_page:
  "assignLoop (htmlRefs records)
     (map (transformed h) (map (\<lambda>i. records ! i) (htmlRefs records))) records
     = Inr (map (reassembled h) records)"
proof -
  have "assignLoop (htmlRefs records)
          (map (\<lambda>i. transformed h (records ! i)) (htmlRefs records)) records
        = Inr (map (\<lambda>j. if j \<in> set (htmlRefs records) then transformed h (records ! j) else records ! j)
                  [0..<length records])"
    by (rule assignLoop_refs) (simp_all add: htmlRefs_props(1,2))
  moreover have "map (\<lambda>j. if j \<in> set (htmlRefs records) then transformed h (records ! j) else records ! j)
                  [0..<length records] = map (reassembled h) records"
    by (rule nth_equalityI) (simp_all add: htmlRefs_props(3) reassembled_def)
  ultimately show ?thesis by (simp add: comp_def)
qed

lemma pending_filter:
  "pending db contentType lw
     = sort_key row_id (filter (\<lambda>r. matchesType contentType r \<and> aboveWatermark lw r) db)"
proof -
  have "filter (\<lambda>r. matchesType contentType r \<and> aboveWatermark lw r) db
          = filter (aboveWatermark lw) (filter (matchesType contentType) db)"
    by (simp add: conj_commute)
  then show ?thesis by (simp add: pending_def filter_sort)
qed

subsection \<open>A run that succeeds\<close>

lemma transformHtmlRecordsInParallel_page:
  assumes "0 < chunkSize"
    and "files env (resolve env modulePath) = Exports f"
    and "\<forall>r \<in> set htmlRecords. f (paraphrase r) = Some (h (paraphrase r))"
    and "poolSound env world"
  shows "\<exists>world1. transformHtmlRecordsInParallel env htmlRecords modulePath chunkSize world
                    = Some (Inr (map (transformed h) htmlRecords), world1) \<and>
                  poolSound env world1 \<and> target world1 = target world \<and>
                  insertSizes world1 = insertSizes world"
proof -
  have s: "\<forall>w. cacheSound env (workers world w)" using assms(4) by (simp add: poolSound_def)
  from transformHtmlRecordsInParallel_ok[OF assms(1,2,3) s]
  obtain chunks where
    c: "transformHtmlRecordsInParallel env htmlRecords modulePath chunkSize world =
             Some (Inr (map (transformed h) htmlRecords),
                   snd (execChunks env (resolve env modulePath) chunks world))"
    by blast
  let ?w1 = "snd (execChunks env (resolve env modulePath) chunks world)"
  have "poolSound env ?w1" unfolding poolSound_def by (rule execChunks_sound[OF s])
  moreover have "target ?w1 = target world" "insertSizes ?w1 = insertSizes world"
    by (simp_all add: execChunks_frame)
  ultimately show ?thesis using c by blast
qed

lemma processPage_page:
  assumes "0 < chunkSize"
    and "files env (resolve env modulePath) = Exports f"
    and "\<forall>r \<in> set records. content_type r = Some HTML \<longrightarrow> f (paraphrase r) = Some (h (paraphrase r))"
    and "poolSound env world"
  shows "\<exists>world1. processPage env modulePath chunkSize records world
                    = Some (Inr (map (reassembled h) records), world1) \<and>
                  poolSound env world1 \<and> target world1 = target world \<and>
                  insertSizes world1 = insertSizes world"
proof -
  let ?hs = "map (\<lambda>i. records ! i) (htmlRefs records)"
  have "\<forall>r \<in> set ?hs. f (paraphrase r) = Some (h (paraphrase r))"
    using assms(3) by (simp add: htmlRefs_records)
  from transformHtmlRecordsInParallel_page[OF assms(1,2) this assms(4)]
  obtain world1 where w1:
    "transformHtmlRecordsInParallel env ?hs modulePath chunkSize world
       = Some (Inr (map (transformed h) ?hs), world1)"
    "poolSound env world1" "target world1 = target world" "insertSizes world1 = insertSizes world"
    by blast
  have "processPage env modulePath chunkSize records world
          = Some (assignLoop (htmlRefs records) (map (transformed h) ?hs) records, world1)"
    using w1(1) by (simp add: processPage_def Let_def)
  then have "processPage env modulePath chunkSize records world
          = Some (Inr (map (reassembled h) records), world1)"
    by (simp only: assignLoop_page)
  with w1(2,3,4) show ?thesis by blast
qed

lemma pagePull_yield:
  assumes "pagePull env db contentType pageSize body lw world = Some (Inr (Some page), gs1, world1)"
  shows "\<exists>records. fetchRecordsPaginated db contentType pageSize lw = Some records \<and>
           body records world = Some (Inr page, world1) \<and> gs1 = Suspended (rowid (last records))"
proof (cases "sourceFault env (PageQuery contentType lw)")
  case True
  with assms show ?thesis by (simp add: pagePull_def)
next
  case noFault: False
  show ?thesis
  proof (cases "fetchRecordsPaginated db contentType pageSize lw")
    case None
    with assms noFault show ?thesis by (simp add: pagePull_def)
  next
    case (Some records)
    show ?thesis
    proof (cases "body records world")
      case None
      with assms noFault Some show ?thesis by (simp add: pagePull_def)
    next
      case bodySome: (Some rw)
      obtain r w1 where rw: "rw = (r, w1)" by (cases rw)
      show ?thesis
      proof (cases r)
        case (Inl e)
        with assms noFault Some bodySome rw show ?thesis by (simp add: pagePull_def)
      next
        case (Inr p)
        with assms noFault Some bodySome rw show ?thesis by (simp add: pagePull_def)
      qed
    qed
  qed
qed

lemma pagePull_fin:
  assumes "pagePull env db contentType pageSize body lw world = Some (Inr None, gs1, world1)"
  shows "fetchRecordsPaginated db contentType pageSize lw = None \<and> world1 = pool_terminate world"
proof (cases "sourceFault env (PageQuery contentType lw)")
  case True
  with assms show ?thesis by (simp add: pagePull_def)
next
  case noFault: False
  show ?thesis
  proof (cases "fetchRecordsPaginated db contentType pageSize lw")
    case None
    with assms noFault show ?thesis by (simp add: pagePull_def)
  next
    case (Some records)
    show ?thesis
    proof (cases "body records world")
      case None
      with assms noFault Some show ?thesis by (simp add: pagePull_def)
    next
      case bodySome: (Some rw)
      obtain r w1 where rw: "rw = (r, w1)" by (cases rw)
      show ?thesis
      proof (cases r)
        case (Inl e)
        with assms noFault Some bodySome rw show ?thesis by (simp add: pagePull_def)
      next
        case (Inr p)
        with assms noFault Some bodySome rw show ?thesis by (simp add: pagePull_def)
      qed
    qed
  qed
qed

lemma pipeline_run:
  assumes ps: "0 < pageSize"
    and nf: "\<forall>q. \<not> sourceFault env q" "\<forall>n. \<not> targetFault env n"
    and dist: "distinct (map row_id db)"
    and exact: "exactRowids (filter (matchesType contentType) db)"
    and body: "\<forall>records world.
        set records \<subseteq> recordOfRow ` set (filter (matchesType contentType) db) \<and>
        poolSound env world \<longrightarrow>
        (\<exists>world1. body records world = Some (Inr (map \<phi> records), world1) \<and>
                   poolSound env world1 \<and> target world1 = target world \<and>
                   insertSizes world1 = insertSizes world)"
  shows "poolSound env world \<Longrightarrow>
         \<exists>world' sizes.
           for_await (generator_next env db contentType pageSize body) (insertRecords env)
             (Suspended (Some w)) world = Some (Inr (), Finished, world') \<and>
           contents (target world') =
             contents (target world)
               @ map (\<lambda>r. stored (\<phi> (recordOfRow r))) (pending db contentType (Some w)) \<and>
           insertSizes world' = insertSizes world @ sizes \<and>
           sum_list sizes = length (pending db contentType (Some w))"
proof (induction "length (pending db contentType (Some w))" arbitrary: w world rule: less_induct)
  case less
  let ?G = "generator_next env db contentType pageSize body"
  let ?xs = "pending db contentType (Some w)"
  note step = generator_next_simps(1)[of env db contentType pageSize body "Some w" world]
  show ?case
  proof (cases "?xs = []")
    case True
    then have "fetchRecordsPaginated db contentType pageSize (Some w) = None"
      by (simp add: fetchRecordsPaginated_pending)
    then have "pagePull env db contentType pageSize body (Some w) world
                 = Some (Inr None, Finished, pool_terminate world)"
      using nf(1) by (simp add: pagePull_def)
    then have "for_await ?G (insertRecords env) (Suspended (Some w)) world
                 = Some (Inr (), Finished, pool_terminate world)"
      by (intro for_await_done) (simp add: step)
    moreover have "contents (target (pool_terminate world)) =
             contents (target world) @ map (\<lambda>r. stored (\<phi> (recordOfRow r))) ?xs"
      using True by (simp add: pool_terminate_counters)
    moreover have "insertSizes (pool_terminate world) = insertSizes world @ []"
      by (simp add: pool_terminate_counters)
    moreover have "sum_list [] = length ?xs" using True by simp
    ultimately show ?thesis by blast
  next
    case False
    let ?rows = "take pageSize ?xs"
    let ?records = "map recordOfRow ?rows"
    have rows_ne: "?rows \<noteq> []" using False ps by simp
    have fetch: "fetchRecordsPaginated db contentType pageSize (Some w) = Some ?records"
      using False ps by (simp add: fetchRecordsPaginated_pending)
    have "set ?rows \<subseteq> set (filter (matchesType contentType) db)"
      using pending_above[of _ db contentType "Some w"] by (auto dest: in_set_takeD)
    then have sub: "set ?records \<subseteq> recordOfRow ` set (filter (matchesType contentType) db)"
      by auto
    from body sub less.prems
    obtain world1 where w1: "body ?records world = Some (Inr (map \<phi> ?records), world1)"
      "poolSound env world1" "target world1 = target world" "insertSizes world1 = insertSizes world"
      by blast
    let ?w' = "row_id (last ?rows)"
    have "pending (filter (matchesType contentType) db) contentType (Some w) = ?xs"
      by (simp add: pending_def)
    have wm: "rowid (last ?records) = Some ?w'"
    proof -
      have "last ?rows \<in> set ?rows" using rows_ne by simp
      then have "last ?rows \<in> set ?xs" by (rule in_set_takeD)
      then have "last ?rows \<in> set (filter (matchesType contentType) db)"
        using pending_above[of "last ?rows" db contentType "Some w"] by simp
      with exact have "toNumber (row_id (last ?rows)) = row_id (last ?rows)"
        unfolding exactRowids_def by blast
      with rowid_last_page[OF rows_ne] show ?thesis by simp
    qed
    have pull: "pagePull env db contentType pageSize body (Some w) world
                 = Some (Inr (Some (map \<phi> ?records)), Suspended (Some ?w'), world1)"
      using nf(1) fetch w1(1) wm by (simp add: pagePull_def)
    from insertRecords_ok[of env world1 "map \<phi> ?records"] nf(2)
    obtain world2 where w2: "insertRecords env (map \<phi> ?records) world1 = Inr world2"
      "contents (target world2) = contents (target world1) @ map stored (map \<phi> ?records)"
      "insertSizes world2 = insertSizes world1 @ [length (map \<phi> ?records)]"
      "workers world2 = workers world1"
      by blast
    have s2: "poolSound env world2" using w1(2) w2(4) by (simp add: poolSound_def)
    have eq: "for_await ?G (insertRecords env) (Suspended (Some w)) world
                = for_await ?G (insertRecords env) (Suspended (Some ?w')) world2"
    proof (rule for_await_step[where page = "map \<phi> ?records" and ?world1.0 = world1])
      show "?G (Suspended (Some w)) world
              = Some (Inr (Some (map \<phi> ?records)), Suspended (Some ?w'), world1)"
        unfolding step by (rule pull)
      show "insertRecords env (map \<phi> ?records) world1 = Inr world2" by (rule w2(1))
    qed
    have nxt: "pending db contentType (Some ?w') = drop pageSize ?xs"
      by (rule pending_next[OF dist ps False])
    have "length (pending db contentType (Some ?w')) < length ?xs"
      unfolding nxt using False ps by simp
    from less.hyps[OF this s2]
    obtain world' sizes where r:
      "for_await ?G (insertRecords env) (Suspended (Some ?w')) world2 = Some (Inr (), Finished, world')"
      "contents (target world') =
         contents (target world2)
           @ map (\<lambda>r. stored (\<phi> (recordOfRow r))) (pending db contentType (Some ?w'))"
      "insertSizes world' = insertSizes world2 @ sizes"
      "sum_list sizes = length (pending db contentType (Some ?w'))"
      by blast
    have m: "map (\<lambda>r. stored (\<phi> (recordOfRow r))) ?rows
               @ map (\<lambda>r. stored (\<phi> (recordOfRow r))) (drop pageSize ?xs)
             = map (\<lambda>r. stored (\<phi> (recordOfRow r))) ?xs"
      unfolding map_append[symmetric] by simp
    have "contents (target world') =
            contents (target world) @ (map (\<lambda>r. stored (\<phi> (recordOfRow r))) ?rows
               @ map (\<lambda>r. stored (\<phi> (recordOfRow r))) (drop pageSize ?xs))"
      unfolding r(2) w2(2) w1(3) nxt by (simp add: comp_def)
    then have c: "contents (target world') =
             contents (target world) @ map (\<lambda>r. stored (\<phi> (recordOfRow r))) ?xs"
      unfolding m .
    have i: "insertSizes world' = insertSizes world @ (length ?rows # sizes)"
      unfolding r(3) w2(3) w1(4) by simp
    have "length ?rows + length (drop pageSize ?xs) = length ?xs" by simp
    then have l: "sum_list (length ?rows # sizes) = length ?xs"
      using r(4) nxt by simp
    have f: "for_await ?G (insertRecords env) (Suspended (Some w)) world
               = Some (Inr (), Finished, world')"
      unfolding eq by (rule r(1))
    show ?thesis
      by (rule exI[of _ world'], rule exI[of _ "length ?rows # sizes"]) (intro conjI f c i l)
  qed
qed

lemma poolSound_create: "poolSound env (pool_create world)"
  by (simp add: poolSound_def pool_create_counters cacheSound_def freshGlobals_def)

lemma pending_sorted:
  "pending db contentType (Some w)
     = sort_key row_id (filter (\<lambda>r. matchesType contentType r \<and> w < row_id r) db)"
proof -
  have "filter (\<lambda>r. matchesType contentType r \<and> w < row_id r) db
          = filter (\<lambda>r. w < row_id r) (filter (matchesType contentType) db)"
    by (simp add: conj_commute)
  then show ?thesis by (simp add: pending_def filter_sort cong: filter_cong)
qed

lemma pending_all:
  assumes "positiveRowids db"
  shows "pending db contentType (Some 0) = sort_key row_id (filter (matchesType contentType) db)"
proof -
  have "\<forall>r \<in> set (sort_key row_id (filter (matchesType contentType) db)). aboveWatermark (Some 0) r"
    using assms by (simp add: positiveRowids_def)
  then show ?thesis by (simp add: pending_def filter_id_conv)
qed

lemma matchesType_simps:
  "filter (matchesType None) db = db"
  "filter (matchesType (Some HTML)) db = filter isHtml db"
  "filter (matchesType (Some LINK)) db = filter isLink db"
proof -
  show "filter (matchesType None) db = db" by (simp add: matchesType_def)
  have "matchesType (Some HTML) = isHtml" by (rule ext) (simp add: matchesType_def isHtml_def)
  then show "filter (matchesType (Some HTML)) db = filter isHtml db" by simp
  have "matchesType (Some LINK) = isLink" by (rule ext) (simp add: matchesType_def isLink_def)
  then show "filter (matchesType (Some LINK)) db = filter isLink db" by simp
qed

lemma exactRowids_filter: "exactRowids db \<Longrightarrow> exactRowids (filter P db)"
  by (simp add: exactRowids_def)

lemma stored_reassembled:
  "stored (reassembled h (recordOfRow r)) =
     (row_entry r, interleavedContent h r,
      Some (defaultContentType (recordOfRow r)))"
  by (simp add: stored_def reassembled_def recordOfRow_def transformed_def interleavedContent_def
        defaultContentType_def)

lemma stored_transformed_html:
  "isHtml r \<Longrightarrow> stored (transformed h (recordOfRow r)) = (row_entry r, h (row_paraphrase r), Some HTML)"
  by (simp add: stored_def recordOfRow_def transformed_def defaultContentType_def isHtml_def)

lemma stored_link:
  "isLink r \<Longrightarrow> stored (recordOfRow r) = (row_entry r, row_paraphrase r, Some LINK)"
  by (simp add: stored_def recordOfRow_def defaultContentType_def isLink_def)

text \<open>
  The rows that the generators page through from the watermark 0: all rows with a positive
  rowid, or those of kind HTML, in rowid order.
\<close>

lemma interleaved_loop:
  assumes "0 < pageSize" and "0 < chunkSize"
    and "files env (resolve env modulePath) = Exports f"
    and "\<forall>r \<in> set db. isHtml r \<longrightarrow> f (row_paraphrase r) = Some (h (row_paraphrase r))"
    and "\<forall>q. \<not> sourceFault env q" and "\<forall>n. \<not> targetFault env n"
    and "uniqueRowids db" and "exactRowids db"
  shows "\<exists>world' sizes.
           for_await (processRecordsInParallel env db modulePath pageSize chunkSize)
             (insertRecords env) Fresh world = Some (Inr (), Finished, world') \<and>
           contents (target world') =
             contents (target world)
               @ map (\<lambda>r. stored (reassembled h (recordOfRow r))) (pending db None (Some 0)) \<and>
           insertSizes world' = insertSizes world @ sizes \<and>
           sum_list sizes = length (pending db None (Some 0))"
proof -
  let ?body = "processPage env modulePath chunkSize"
  have body: "\<forall>records world.
        set records \<subseteq> recordOfRow ` set (filter (matchesType None) db) \<and>
        poolSound env world \<longrightarrow>
        (\<exists>world1. ?body records world = Some (Inr (map (reassembled h) records), world1) \<and>
                   poolSound env world1 \<and> target world1 = target world \<and>
                   insertSizes world1 = insertSizes world)"
  proof (intro allI impI, elim conjE)
    fix records world
    assume "set records \<subseteq> recordOfRow ` set (filter (matchesType None) db)"
      and snd: "poolSound env world"
    then have sub: "set records \<subseteq> recordOfRow ` set db" by (simp add: matchesType_simps)
    have "\<forall>r \<in> set records. content_type r = Some HTML \<longrightarrow> f (paraphrase r) = Some (h (paraphrase r))"
    proof (intro ballI impI)
      fix r assume "r \<in> set records" and k: "content_type r = Some HTML"
      with sub obtain row where row: "row \<in> set db" "r = recordOfRow row" by blast
      with k have "isHtml row" by (simp add: recordOfRow_def isHtml_def)
      with assms(4) row(1) have "f (row_paraphrase row) = Some (h (row_paraphrase row))" by blast
      then show "f (paraphrase r) = Some (h (paraphrase r))" by (simp add: row(2) recordOfRow_def)
    qed
    from processPage_page[OF assms(2,3) this snd]
    show "\<exists>world1. ?body records world = Some (Inr (map (reassembled h) records), world1) \<and>
                   poolSound env world1 \<and> target world1 = target world \<and>
                   insertSizes world1 = insertSizes world" .
  qed
  have dist: "distinct (map row_id db)" using assms(7) by (simp add: uniqueRowids_def)
  have exact: "exactRowids (filter (matchesType None) db)"
    using assms(8) by (rule exactRowids_filter)
  from pipeline_run[OF assms(1,5,6) dist exact body poolSound_create, of 0 world]
  obtain world' sizes where r:
    "for_await (generator_next env db None pageSize ?body) (insertRecords env)
       (Suspended (Some 0)) (pool_create world) = Some (Inr (), Finished, world')"
    "contents (target world') =
       contents (target (pool_create world))
         @ map (\<lambda>r. stored (reassembled h (recordOfRow r))) (pending db None (Some 0))"
    "insertSizes world' = insertSizes (pool_create world) @ sizes"
    "sum_list sizes = length (pending db None (Some 0))"
    by blast
  have f: "for_await (processRecordsInParallel env db modulePath pageSize chunkSize)
             (insertRecords env) Fresh world = Some (Inr (), Finished, world')"
    unfolding processRecordsInParallel_def for_await_Fresh by (rule r(1))
  have c: "contents (target world') =
             contents (target world)
               @ map (\<lambda>r. stored (reassembled h (recordOfRow r))) (pending db None (Some 0))"
    using r(2) by (simp add: pool_create_counters)
  have i: "insertSizes world' = insertSizes world @ sizes"
    using r(3) by (simp add: pool_create_counters)
  show ?thesis
    by (rule exI[of _ world'], rule exI[of _ sizes]) (intro conjI f c i r(4))
qed

lemma htmlFirst_loop:
  assumes "0 < pageSize" and "0 < chunkSize"
    and "files env (resolve env modulePath) = Exports f"
    and "\<forall>r \<in> set db. isHtml r \<longrightarrow> f (row_paraphrase r) = Some (h (row_paraphrase r))"
    and "\<forall>q. \<not> sourceFault env q" and "\<forall>n. \<not> targetFault env n"
    and "uniqueRowids db" and "exactRowids (filter isHtml db)"
  shows "\<exists>world' sizes.
           for_await (transformHtmlRecordsInParallel_gen env db modulePath pageSize chunkSize)
             (insertRecords env) Fresh world = Some (Inr (), Finished, world') \<and>
           contents (target world') =
             contents (target world)
               @ map (\<lambda>r. stored (transformed h (recordOfRow r))) (pending db (Some HTML) (Some 0)) \<and>
           insertSizes world' = insertSizes world @ sizes \<and>
           sum_list sizes = length (pending db (Some HTML) (Some 0))"
proof -
  let ?body = "\<lambda>htmlRecords. transformHtmlRecordsInParallel env htmlRecords modulePath chunkSize"
  have body: "\<forall>records world.
        set records \<subseteq> recordOfRow ` set (filter (matchesType (Some HTML)) db) \<and>
        poolSound env world \<longrightarrow>
        (\<exists>world1. ?body records world = Some (Inr (map (transformed h) records), world1) \<and>
                   poolSound env world1 \<and> target world1 = target world \<and>
                   insertSizes world1 = insertSizes world)"
  proof (intro allI impI, elim conjE)
    fix records world
    assume "set records \<subseteq> recordOfRow ` set (filter (matchesType (Some HTML)) db)"
      and snd: "poolSound env world"
    then have sub: "set records \<subseteq> recordOfRow ` set (filter isHtml db)"
      by (simp add: matchesType_simps)
    have "\<forall>r \<in> set records. f (paraphrase r) = Some (h (paraphrase r))"
    proof
      fix r assume "r \<in> set records"
      with sub obtain row where row: "row \<in> set db" "isHtml row" "r = recordOfRow row" by auto
      with assms(4) have "f (row_paraphrase row) = Some (h (row_paraphrase row))" by blast
      then show "f (paraphrase r) = Some (h (paraphrase r))" by (simp add: row(3) recordOfRow_def)
    qed
    from transformHtmlRecordsInParallel_page[OF assms(2,3) this snd]
    show "\<exists>world1. ?body records world = Some (Inr (map (transformed h) records), world1) \<and>
                   poolSound env world1 \<and> target world1 = target world \<and>
                   insertSizes world1 = insertSizes world" .
  qed
  have dist: "distinct (map row_id db)" using assms(7) by (simp add: uniqueRowids_def)
  have exact: "exactRowids (filter (matchesType (Some HTML)) db)"
    using assms(8) by (simp add: matchesType_simps)
  from pipeline_run[OF assms(1,5,6) dist exact body poolSound_create, of 0 world]
  obtain world' sizes where r:
    "for_await (generator_next env db (Some HTML) pageSize ?body) (insertRecords env)
       (Suspended (Some 0)) (pool_create world) = Some (Inr (), Finished, world')"
    "contents (target world') =
       contents (target (pool_create world))
         @ map (\<lambda>r. stored (transformed h (recordOfRow r))) (pending db (Some HTML) (Some 0))"
    "insertSizes world' = insertSizes (pool_create world) @ sizes"
    "sum_list sizes = length (pending db (Some HTML) (Some 0))"
    by blast
  have f: "for_await (transformHtmlRecordsInParallel_gen env db modulePath pageSize chunkSize)
             (insertRecords env) Fresh world = Some (Inr (), Finished, world')"
    unfolding transformHtmlRecordsInParallel_gen_def for_await_Fresh by (rule r(1))
  have c: "contents (target world') =
             contents (target world)
               @ map (\<lambda>r. stored (transformed h (recordOfRow r))) (pending db (Some HTML) (Some 0))"
    using r(2) by (simp add: pool_create_counters)
  have i: "insertSizes world' = insertSizes world @ sizes"
    using r(3) by (simp add: pool_create_counters)
  show ?thesis
    by (rule exI[of _ world'], rule exI[of _ sizes]) (intro conjI f c i r(4))
qed

lemma workflow_interleaved:
  assumes "0 < pageSize" and "0 < chunkSize"
    and "files env (resolve env modulePath) = Exports f"
    and "\<forall>r \<in> set db. isHtml r \<longrightarrow> f (row_paraphrase r) = Some (h (row_paraphrase r))"
    and "\<forall>q. \<not> sourceFault env q" and "\<forall>n. \<not> targetFault env n"
    and "uniqueRowids db" and "exactRowids db"
    and "existsSync env modulePath"
    and "\<not> optionsHtmlBeforeLink options"
  shows "\<exists>world' sizes.
           runTransformWorkflowWith pageSize chunkSize env db modulePath options world
             = Some (Inr (), world') \<and>
           contents (target world') =
             contents (target world)
               @ map (\<lambda>r. (row_entry r, interleavedContent h r,
                            Some (defaultContentType (recordOfRow r))))
                   (sort_key row_id (filter (\<lambda>r. 0 < row_id r) db)) \<and>
           insertSizes world' = insertSizes world @ sizes \<and>
           sum_list sizes = length (filter (\<lambda>r. 0 < row_id r) db)"
proof -
  from interleaved_loop[OF assms(1-8), of world]
  obtain world' sizes where r:
    "for_await (processRecordsInParallel env db modulePath pageSize chunkSize)
             (insertRecords env) Fresh world = Some (Inr (), Finished, world')"
    "contents (target world') =
             contents (target world)
               @ map (\<lambda>r. stored (reassembled h (recordOfRow r))) (pending db None (Some 0))"
    "insertSizes world' = insertSizes world @ sizes"
    "sum_list sizes = length (pending db None (Some 0))"
    by blast
  have p: "pending db None (Some 0) = sort_key row_id (filter (\<lambda>r. 0 < row_id r) db)"
    by (simp add: pending_sorted matchesType_def)
  have nf: "\<not> sourceFault env q" for q using assms(5) by simp
  have f: "runTransformWorkflowWith pageSize chunkSize env db modulePath options world
             = Some (Inr (), world')"
    using assms(10) r(1)
    by (simp add: runTransformWorkflowWith_def validateModuleExists_ok[OF assms(9)]
          getTotalRecordCount_ok[OF nf])
  have c: "contents (target world') =
             contents (target world)
               @ map (\<lambda>r. (row_entry r, interleavedContent h r,
                            Some (defaultContentType (recordOfRow r))))
                   (sort_key row_id (filter (\<lambda>r. 0 < row_id r) db))"
    using r(2) unfolding p by (simp only: stored_reassembled)
  have l: "sum_list sizes = length (filter (\<lambda>r. 0 < row_id r) db)"
    using r(4) unfolding p by simp
  show ?thesis
    by (rule exI[of _ world'], rule exI[of _ sizes]) (intro conjI f c r(3) l)
qed

lemma fetchLinkRecords_rows:
  "fetchLinkRecords db = map recordOfRow (sort_key row_id (filter isLink db))"
  by (simp add: fetchLinkRecords_def fetchRecords_def matchesType_simps)

lemma workflow_htmlFirst:
  assumes "0 < pageSize" and "0 < chunkSize"
    and "files env (resolve env modulePath) = Exports f"
    and "\<forall>r \<in> set db. isHtml r \<longrightarrow> f (row_paraphrase r) = Some (h (row_paraphrase r))"
    and "\<forall>q. \<not> sourceFault env q" and "\<forall>n. \<not> targetFault env n"
    and "uniqueRowids db" and "exactRowids (filter isHtml db)"
    and "existsSync env modulePath"
    and "optionsHtmlBeforeLink options"
  shows "\<exists>world' sizes.
           runTransformWorkflowWith pageSize chunkSize env db modulePath options world
             = Some (Inr (), world') \<and>
           contents (target world') =
             contents (target world)
               @ map (\<lambda>r. (row_entry r, h (row_paraphrase r), Some HTML))
                   (sort_key row_id (filter (\<lambda>r. isHtml r \<and> 0 < row_id r) db))
               @ map (\<lambda>r. (row_entry r, row_paraphrase r, Some LINK))
                   (sort_key row_id (filter isLink db)) \<and>
           insertSizes world' = insertSizes world @ sizes @ [length (filter isLink db)] \<and>
           sum_list sizes = length (filter (\<lambda>r. isHtml r \<and> 0 < row_id r) db)"
proof -
  from htmlFirst_loop[OF assms(1-8), of world]
  obtain world1 sizes where r:
    "for_await (transformHtmlRecordsInParallel_gen env db modulePath pageSize chunkSize)
             (insertRecords env) Fresh world = Some (Inr (), Finished, world1)"
    "contents (target world1) =
             contents (target world)
               @ map (\<lambda>r. stored (transformed h (recordOfRow r))) (pending db (Some HTML) (Some 0))"
    "insertSizes world1 = insertSizes world @ sizes"
    "sum_list sizes = length (pending db (Some HTML) (Some 0))"
    by blast
  have "(\<lambda>r. matchesType (Some HTML) r \<and> 0 < row_id r) = (\<lambda>r. isHtml r \<and> 0 < row_id r)"
    by (rule ext) (simp add: matchesType_def isHtml_def)
  then have p: "pending db (Some HTML) (Some 0)
                  = sort_key row_id (filter (\<lambda>r. isHtml r \<and> 0 < row_id r) db)"
    by (simp add: pending_sorted)
  from insertRecords_ok[of env world1 "fetchLinkRecords db"] assms(6)
  obtain world2 where w2: "insertRecords env (fetchLinkRecords db) world1 = Inr world2"
    "contents (target world2) = contents (target world1) @ map stored (fetchLinkRecords db)"
    "insertSizes world2 = insertSizes world1 @ [length (fetchLinkRecords db)]"
    by blast
  have nf: "\<not> sourceFault env q" for q using assms(5) by simp
  have f: "runTransformWorkflowWith pageSize chunkSize env db modulePath options world
             = Some (Inr (), world2)"
    using assms(10) r(1) w2(1)
    by (simp add: runTransformWorkflowWith_def validateModuleExists_ok[OF assms(9)]
          getTotalRecordCount_ok[OF nf] nf)
  have h1: "map (\<lambda>r. stored (transformed h (recordOfRow r)))
              (sort_key row_id (filter (\<lambda>r. isHtml r \<and> 0 < row_id r) db))
          = map (\<lambda>r. (row_entry r, h (row_paraphrase r), Some HTML))
              (sort_key row_id (filter (\<lambda>r. isHtml r \<and> 0 < row_id r) db))"
    by (rule map_cong) (simp_all add: stored_transformed_html)
  have l1: "map stored (fetchLinkRecords db)
          = map (\<lambda>r. (row_entry r, row_paraphrase r, Some LINK)) (sort_key row_id (filter isLink db))"
    unfolding fetchLinkRecords_rows map_map comp_def
    by (rule map_cong) (simp_all add: stored_link)
  have c: "contents (target world2) =
             contents (target world)
               @ map (\<lambda>r. (row_entry r, h (row_paraphrase r), Some HTML))
                   (sort_key row_id (filter (\<lambda>r. isHtml r \<and> 0 < row_id r) db))
               @ map (\<lambda>r. (row_entry r, row_paraphrase r, Some LINK))
                   (sort_key row_id (filter isLink db))"
    unfolding w2(2) r(2) p h1 l1 by simp
  have i: "insertSizes world2 = insertSizes world @ sizes @ [length (filter isLink db)]"
    unfolding w2(3) r(3) by (simp add: fetchLinkRecords_rows)
  have l: "sum_list sizes = length (filter (\<lambda>r. isHtml r \<and> 0 < row_id r) db)"
    using r(4) unfolding p by simp
  show ?thesis
    by (rule exI[of _ world2], rule exI[of _ sizes]) (intro conjI f c i l)
qed

lemma contents_entries: "map fst (contents db) = map row_entry db"
  by (simp add: contents_def comp_def)

lemma contents_paraphrases: "map (\<lambda>c. fst (snd c)) (contents db) = map row_paraphrase db"
  by (simp add: contents_def comp_def)

lemma axbycSource_props:
  "uniqueRowids axbycSource" "exactRowids axbycSource" "positiveRowids axbycSource"
  "sort_key row_id axbycSource = axbycSource"
  "\<forall>r \<in> set axbycSource. isHtml r \<or> isLink r"
  "filter isHtml axbycSource = [mkRow 1 ''a'' ''a'' HTML, mkRow 3 ''b'' ''b'' HTML, mkRow 5 ''c'' ''c'' HTML]"
  "filter isLink axbycSource = [mkRow 2 ''x'' ''@@@LINK=a'' LINK, mkRow 4 ''y'' ''@@@LINK=b'' LINK]"
  by (simp_all add: uniqueRowids_def exactRowids_def positiveRowids_def toNumber_exact
        axbycSource_def mkRow_def isHtml_def isLink_def HTML_def LINK_def)

lemma identityEnv_props:
  "files identityEnv (resolve identityEnv p) = Exports (\<lambda>s. Some s)"
  "\<forall>q. \<not> sourceFault identityEnv q" "\<forall>n. \<not> targetFault identityEnv n"
  "existsSync identityEnv p"
  by (simp_all add: identityEnv_def)

lemma mset_entries_sorted: "mset (map row_entry (sort_key row_id db)) = mset (map row_entry db)"
  by simp

lemma html_link_cover:
  assumes "\<forall>r \<in> set db. isHtml r \<or> isLink r"
  shows "filter isLink db = filter (\<lambda>r. \<not> isHtml r) db"
proof (rule filter_cong[OF refl])
  fix r assume "r \<in> set db"
  with assms show "isLink r = (\<not> isHtml r)"
    by (auto simp: isHtml_def isLink_def HTML_def LINK_def)
qed

subsection \<open>A module that does not load\<close>

lemma transformHtmlRecords_unloadable:
  assumes "files env p = m" and "m = NotFound \<or> m = ImportFails \<or> m = WrongShape" and "cacheSound env g"
  shows "fst (transformHtmlRecords env records p g) = Inl (loadError m)"
proof -
  have miss: "transformHtml g = None \<or> transformModulePath g \<noteq> Some p"
  proof (rule ccontr)
    assume "\<not> (transformHtml g = None \<or> transformModulePath g \<noteq> Some p)"
    then obtain f' where "transformHtml g = Some f'" "transformModulePath g = Some p" by auto
    from cacheSound_hit[OF assms(3) this] assms(1,2) show False by auto
  qed
  show ?thesis
  proof (cases m)
    case NotFound
    with miss assms(1) show ?thesis
      by (simp add: transformHtmlRecords_def Let_def loadError_def)
  next
    case ImportFails
    with miss assms(1) show ?thesis
      by (simp add: transformHtmlRecords_def Let_def loadError_def)
  next
    case WrongShape
    with miss assms(1) show ?thesis
      by (simp add: transformHtmlRecords_def Let_def loadError_def)
  next
    case (Exports f)
    with assms(2) show ?thesis by simp
  qed
qed

lemma pool_exec_unloadable:
  assumes "files env p = m" and "m = NotFound \<or> m = ImportFails \<or> m = WrongShape" and "poolSound env world"
  shows "fst (pool_exec env chunk p world) = Inl (loadError m)"
proof -
  let ?w = "schedule env (dispatched world) mod max 1 (poolSize env)"
  have "cacheSound env (workers world ?w)" using assms(3) by (simp add: poolSound_def)
  from transformHtmlRecords_unloadable[OF assms(1,2) this, of chunk]
  show ?thesis by (simp add: pool_exec_def Let_def split_beta)
qed

lemma execChunks_unloadable:
  assumes "files env p = m" and "m = NotFound \<or> m = ImportFails \<or> m = WrongShape" and "poolSound env world"
    and "chunks \<noteq> []"
  shows "promiseAll (fst (execChunks env p chunks world)) = Inl (loadError m)"
proof -
  from assms(4) obtain chunk rest where c: "chunks = chunk # rest" by (cases chunks) auto
  have "fst (execChunks env p (chunk # rest) world)
          = fst (pool_exec env chunk p world)
              # fst (execChunks env p rest (snd (pool_exec env chunk p world)))"
    by (simp add: split_beta)
  then show ?thesis
    unfolding c by (simp add: pool_exec_unloadable[OF assms(1,2,3)])
qed

lemma transformHtmlRecordsInParallel_unloadable:
  assumes "0 < chunkSize"
    and "files env (resolve env modulePath) = m" and "m = NotFound \<or> m = ImportFails \<or> m = WrongShape"
    and "poolSound env world" and "htmlRecords \<noteq> []"
  shows "\<exists>world1. transformHtmlRecordsInParallel env htmlRecords modulePath chunkSize world
                    = Some (Inl (loadError m), world1) \<and>
                  dispatched world < dispatched world1"
proof -
  from chunkLoop_Some[OF assms(1), of htmlRecords 0 "[]"]
  obtain chunks where c: "chunkLoop htmlRecords chunkSize 0 [] = Some chunks"
    "concat chunks = htmlRecords" by auto
  have ne: "chunks \<noteq> []" using c(2) assms(5) by auto
  let ?x = "execChunks env (resolve env modulePath) chunks world"
  have "promiseAll (fst ?x) = Inl (loadError m)"
    by (rule execChunks_unloadable[OF assms(2,3,4) ne])
  with c(1) have "transformHtmlRecordsInParallel env htmlRecords modulePath chunkSize world
                    = Some (Inl (loadError m), snd ?x)"
    by (simp add: transformHtmlRecordsInParallel_def split_beta)
  moreover have "dispatched world < dispatched (snd ?x)"
    using ne by (simp add: execChunks_frame)
  ultimately show ?thesis by blast
qed

lemma processPage_unloadable:
  assumes "0 < chunkSize"
    and "files env (resolve env modulePath) = m" and "m = NotFound \<or> m = ImportFails \<or> m = WrongShape"
    and "poolSound env world" and "\<exists>r \<in> set records. content_type r = Some HTML"
  shows "\<exists>world1. processPage env modulePath chunkSize records world
                    = Some (Inl (loadError m), world1) \<and>
                  dispatched world < dispatched world1"
proof -
  let ?hs = "map (\<lambda>i. records ! i) (htmlRefs records)"
  have "?hs \<noteq> []" using assms(5) by (simp add: htmlRefs_records filter_empty_conv)
  from transformHtmlRecordsInParallel_unloadable[OF assms(1,2,3,4) this]
  obtain world1 where
    "transformHtmlRecordsInParallel env ?hs modulePath chunkSize world = Some (Inl (loadError m), world1)"
    "dispatched world < dispatched world1" by blast
  then show ?thesis by (auto simp: processPage_def Let_def)
qed

lemma processPage_noHtml:
  assumes "\<forall>r \<in> set records. content_type r \<noteq> Some HTML"
  shows "processPage env modulePath chunkSize records world = Some (Inr records, world)"
proof -
  have h: "filter (\<lambda>r. content_type r = Some HTML) records = []"
    using assms by (simp add: filter_empty_conv)
  then have refs: "htmlRefs records = []"
    using htmlRefs_records[of records] by simp
  have "transformHtmlRecordsInParallel env [] modulePath chunkSize world = Some (Inr [], world)"
    by (simp add: transformHtmlRecordsInParallel_def chunkLoop_stop)
  then show ?thesis by (simp add: processPage_def refs)
qed

lemma interleaved_unloadable:
  assumes ps: "0 < pageSize" and cs: "0 < chunkSize"
    and m: "files env (resolve env modulePath) = m" "m = NotFound \<or> m = ImportFails \<or> m = WrongShape"
    and nf: "\<forall>q. \<not> sourceFault env q" "\<forall>n. \<not> targetFault env n"
    and dist: "distinct (map row_id db)" and exact: "exactRowids db"
  shows "poolSound env world \<Longrightarrow> \<exists>r \<in> set (pending db None (Some w)). isHtml r \<Longrightarrow>
         \<exists>world'.
           for_await (generator_next env db None pageSize (processPage env modulePath chunkSize))
             (insertRecords env) (Suspended (Some w)) world
             = Some (Inl (loadError m), Finished, world') \<and>
           dispatched world < dispatched world'"
proof (induction "length (pending db None (Some w))" arbitrary: w world rule: less_induct)
  case less
  let ?body = "processPage env modulePath chunkSize"
  let ?G = "generator_next env db None pageSize ?body"
  let ?xs = "pending db None (Some w)"
  let ?rows = "take pageSize ?xs"
  let ?records = "map recordOfRow ?rows"
  note step = generator_next_simps(1)[of env db None pageSize ?body "Some w" world]
  have ne: "?xs \<noteq> []" using less.prems(2) by auto
  have rows_ne: "?rows \<noteq> []" using ne ps by simp
  have fetch: "fetchRecordsPaginated db None pageSize (Some w) = Some ?records"
    using ne ps by (simp add: fetchRecordsPaginated_pending)
  show ?case
  proof (cases "\<exists>r \<in> set ?records. content_type r = Some HTML")
    case True
    from processPage_unloadable[OF cs m less.prems(1) True]
    obtain world1 where w1: "?body ?records world = Some (Inl (loadError m), world1)"
      "dispatched world < dispatched world1" by blast
    have "pagePull env db None pageSize ?body (Some w) world
            = Some (Inl (loadError m), Finished, pool_terminate world1)"
      using nf(1) fetch w1(1) by (simp add: pagePull_def)
    then have "for_await ?G (insertRecords env) (Suspended (Some w)) world
                 = Some (Inl (loadError m), Finished, pool_terminate world1)"
      by (intro for_await_error) (simp add: step)
    moreover have "dispatched world < dispatched (pool_terminate world1)"
      using w1(2) by (simp add: pool_terminate_counters)
    ultimately show ?thesis by blast
  next
    case False
    then have none: "\<forall>r \<in> set ?records. content_type r \<noteq> Some HTML" by blast
    have body: "?body ?records world = Some (Inr ?records, world)"
      by (rule processPage_noHtml[OF none])
    let ?w' = "row_id (last ?rows)"
    have wm: "rowid (last ?records) = Some ?w'" by (rule watermark_exact[OF exact ps ne])
    have pull: "pagePull env db None pageSize ?body (Some w) world
                 = Some (Inr (Some ?records), Suspended (Some ?w'), world)"
      using nf(1) fetch body wm by (simp add: pagePull_def)
    from insertRecords_ok[of env world ?records] nf(2)
    obtain world2 where w2: "insertRecords env ?records world = Inr world2"
      "workers world2 = workers world" "dispatched world2 = dispatched world"
      by blast
    have s2: "poolSound env world2" using less.prems(1) w2(2) by (simp add: poolSound_def)
    have eq: "for_await ?G (insertRecords env) (Suspended (Some w)) world
                = for_await ?G (insertRecords env) (Suspended (Some ?w')) world2"
    proof (rule for_await_step[where page = ?records and ?world1.0 = world])
      show "?G (Suspended (Some w)) world = Some (Inr (Some ?records), Suspended (Some ?w'), world)"
        unfolding step by (rule pull)
      show "insertRecords env ?records world = Inr world2" by (rule w2(1))
    qed
    have nxt: "pending db None (Some ?w') = drop pageSize ?xs"
      by (rule pending_next[OF dist ps ne])
    have smaller: "length (pending db None (Some ?w')) < length ?xs"
      unfolding nxt using ne ps by simp
    from less.prems(2) obtain r where r: "r \<in> set ?xs" "isHtml r" by blast
    have "r \<notin> set ?rows"
    proof
      assume "r \<in> set ?rows"
      then have "recordOfRow r \<in> set ?records" by simp
      with none have "content_type (recordOfRow r) \<noteq> Some HTML" by blast
      with r(2) show False by (simp add: recordOfRow_def isHtml_def)
    qed
    moreover have "set ?xs = set ?rows \<union> set (drop pageSize ?xs)"
      by (metis append_take_drop_id set_append)
    ultimately have "r \<in> set (pending db None (Some ?w'))" using r(1) unfolding nxt by blast
    with r(2) have ex: "\<exists>r \<in> set (pending db None (Some ?w')). isHtml r" by blast
    from less.hyps[OF smaller s2 ex]
    obtain world' where
      "for_await ?G (insertRecords env) (Suspended (Some ?w')) world2
         = Some (Inl (loadError m), Finished, world')"
      "dispatched world2 < dispatched world'" by blast
    then show ?thesis unfolding eq w2(3) by blast
  qed
qed

lemma workflow_unloadable:
  assumes ps: "0 < pageSize" and cs: "0 < chunkSize"
    and ex: "existsSync env modulePath"
    and m: "files env (resolve env modulePath) = m" "m = NotFound \<or> m = ImportFails \<or> m = WrongShape"
    and nf: "\<forall>q. \<not> sourceFault env q" "\<forall>n. \<not> targetFault env n"
    and rowids: "uniqueRowids db" "exactRowids db"
    and html: "\<exists>r \<in> set db. isHtml r \<and> 0 < row_id r"
  shows "\<exists>world'.
           runTransformWorkflowWith pageSize chunkSize env db modulePath options world
             = Some (Inl (loadError m), world') \<and>
           dispatched world < dispatched world'"
proof -
  have dist: "distinct (map row_id db)" using rowids(1) by (simp add: uniqueRowids_def)
  have nfq: "\<not> sourceFault env q" for q using nf(1) by simp
  from html obtain r where r: "r \<in> set db" "isHtml r" "0 < row_id r" by blast
  show ?thesis
  proof (cases "optionsHtmlBeforeLink options")
    case False
    have "r \<in> set (pending db None (Some 0))"
      using r by (simp add: pending_def matchesType_def)
    with r(2) have ex': "\<exists>r \<in> set (pending db None (Some 0)). isHtml r" by blast
    from interleaved_unloadable[OF ps cs m nf dist rowids(2) poolSound_create ex', of world]
    obtain world' where res:
      "for_await (generator_next env db None pageSize (processPage env modulePath chunkSize))
         (insertRecords env) (Suspended (Some 0)) (pool_create world)
         = Some (Inl (loadError m), Finished, world')"
      "dispatched (pool_create world) < dispatched world'" by blast
    have "for_await (processRecordsInParallel env db modulePath pageSize chunkSize)
             (insertRecords env) Fresh world = Some (Inl (loadError m), Finished, world')"
      unfolding processRecordsInParallel_def for_await_Fresh by (rule res(1))
    with False have "runTransformWorkflowWith pageSize chunkSize env db modulePath options world
             = Some (Inl (loadError m), world')"
      by (simp add: runTransformWorkflowWith_def validateModuleExists_ok[OF ex]
            getTotalRecordCount_ok[OF nfq])
    with res(2) show ?thesis by (auto simp: pool_create_counters)
  next
    case True
    let ?body = "\<lambda>htmlRecords. transformHtmlRecordsInParallel env htmlRecords modulePath chunkSize"
    let ?xs = "pending db (Some HTML) (Some 0)"
    let ?records = "map recordOfRow (take pageSize ?xs)"
    have "r \<in> set ?xs" using r by (simp add: pending_def matchesType_def isHtml_def)
    then have ne: "?xs \<noteq> []" by auto
    then have rne: "?records \<noteq> []" using ps by simp
    have fetch: "fetchRecordsPaginated db (Some HTML) pageSize (Some 0) = Some ?records"
      using ne ps by (simp add: fetchRecordsPaginated_pending)
    from transformHtmlRecordsInParallel_unloadable[OF cs m poolSound_create rne, of world]
    obtain world1 where w1: "?body ?records (pool_create world) = Some (Inl (loadError m), world1)"
      "dispatched (pool_create world) < dispatched world1" by blast
    have "pagePull env db (Some HTML) pageSize ?body (Some 0) (pool_create world)
            = Some (Inl (loadError m), Finished, pool_terminate world1)"
      using nfq fetch w1(1) by (simp add: pagePull_def)
    then have "for_await (transformHtmlRecordsInParallel_gen env db modulePath pageSize chunkSize)
             (insertRecords env) Fresh world
               = Some (Inl (loadError m), Finished, pool_terminate world1)"
      unfolding transformHtmlRecordsInParallel_gen_def
      by (intro for_await_error) (simp add: generator_next_simps)
    with True have "runTransformWorkflowWith pageSize chunkSize env db modulePath options world
             = Some (Inl (loadError m), pool_terminate world1)"
      by (simp add: runTransformWorkflowWith_def validateModuleExists_ok[OF ex]
            getTotalRecordCount_ok[OF nfq])
    with w1(2) show ?thesis by (auto simp: pool_create_counters pool_terminate_counters)
  qed
qed

subsection \<open>What a run that completes has written\<close>

lemma mapRecords_entries: "mapRecords f records = Some out \<Longrightarrow> map entry out = map entry records"
  by (induction records arbitrary: out) (auto split: option.splits)

lemma chunkLoop_concat:
  assumes "chunkLoop xs C 0 [] = Some chunks"
  shows "concat chunks = xs"
proof (cases "C = 0")
  case True
  with chunkLoop_zero[OF assms] have e: "xs = []" by simp
  then have "chunkLoop xs C 0 [] = Some []" by (simp add: chunkLoop_stop)
  with assms e show ?thesis by simp
next
  case False
  then have "0 < C" by simp
  from chunkLoop_Some[OF this, of xs 0 "[]"] assms show ?thesis by auto
qed

lemma pool_exec_fst:
  "fst (pool_exec env chunk p world)
     = fst (transformHtmlRecords env chunk p
              (workers world (schedule env (dispatched world) mod max 1 (poolSize env))))"
  by (simp add: pool_exec_def Let_def split_beta)

lemma execChunks_entries:
  "promiseAll (fst (execChunks env p chunks world)) = Inr outs \<Longrightarrow>
   map entry (concat outs) = map entry (concat chunks)"
proof (induction chunks arbitrary: world outs)
  case Nil
  then show ?case by auto
next
  case (Cons chunk chunks)
  let ?w1 = "snd (pool_exec env chunk p world)"
  let ?g = "workers world (schedule env (dispatched world) mod max 1 (poolSize env))"
  have unfold: "fst (execChunks env p (chunk # chunks) world)
          = fst (pool_exec env chunk p world) # fst (execChunks env p chunks ?w1)"
    by (simp add: split_beta)
  show ?case
  proof (cases "fst (pool_exec env chunk p world)")
    case (Inl e)
    with Cons.prems unfold show ?thesis by simp
  next
    case (Inr out)
    show ?thesis
    proof (cases "promiseAll (fst (execChunks env p chunks ?w1))")
      case (Inl e)
      with Cons.prems unfold Inr show ?thesis by simp
    next
      case rest: (Inr outs')
      with Cons.prems unfold Inr have outs: "outs = out # outs'" by simp
      from Inr have "transformHtmlRecords env chunk p ?g
                       = (Inr out, snd (transformHtmlRecords env chunk p ?g))"
        by (simp add: pool_exec_fst prod_eq_iff)
      from transformHtmlRecords_result[OF this]
      obtain f where "mapRecords f chunk = Some out" by blast
      then have "map entry out = map entry chunk" by (rule mapRecords_entries)
      moreover from Cons.IH[OF rest] have "map entry (concat outs') = map entry (concat chunks)" .
      ultimately show ?thesis unfolding outs by simp
    qed
  qed
qed

lemma transformHtmlRecordsInParallel_target:
  assumes "transformHtmlRecordsInParallel env htmlRecords modulePath chunkSize world = Some (res, world1)"
  shows "target world1 = target world"
proof (cases "chunkLoop htmlRecords chunkSize 0 []")
  case None
  with assms show ?thesis by (simp add: transformHtmlRecordsInParallel_def)
next
  case (Some chunks)
  let ?x = "execChunks env (resolve env modulePath) chunks world"
  have "world1 = snd ?x"
    using assms Some
    by (cases "promiseAll (fst ?x)") (simp_all add: transformHtmlRecordsInParallel_def split_beta)
  then show ?thesis by (simp add: execChunks_frame)
qed

lemma transformHtmlRecordsInParallel_entries:
  assumes "transformHtmlRecordsInParallel env htmlRecords modulePath chunkSize world
             = Some (Inr out, world1)"
  shows "map entry out = map entry htmlRecords"
proof (cases "chunkLoop htmlRecords chunkSize 0 []")
  case None
  with assms show ?thesis by (simp add: transformHtmlRecordsInParallel_def)
next
  case (Some chunks)
  let ?x = "execChunks env (resolve env modulePath) chunks world"
  show ?thesis
  proof (cases "promiseAll (fst ?x)")
    case (Inl e)
    with assms Some show ?thesis by (simp add: transformHtmlRecordsInParallel_def split_beta)
  next
    case (Inr outs)
    with assms Some have "out = concat outs"
      by (simp add: transformHtmlRecordsInParallel_def split_beta)
    with execChunks_entries[OF Inr] chunkLoop_concat[OF Some] show ?thesis by simp
  qed
qed

lemma entries_update:
  "map entry (records[ref := (records ! ref)\<lparr>paraphrase := s\<rparr>]) = map entry records"
proof (cases "ref < length records")
  case True
  then have "(map entry records)[ref := entry (records ! ref)] = map entry records"
    by (metis list_update_id nth_map)
  then show ?thesis by (simp add: map_update)
next
  case False
  then have "length records \<le> ref" by simp
  then have "records[ref := (records ! ref)\<lparr>paraphrase := s\<rparr>] = records"
    by (rule list_update_beyond)
  then show ?thesis by simp
qed

lemma assignLoop_entries:
  "assignLoop refs transformedRecords records = Inr page \<Longrightarrow> map entry page = map entry records"
proof (induction refs transformedRecords records rule: assignLoop.induct)
  case (1 transformedRecords records)
  then show ?case by simp
next
  case (2 ref refs records)
  then show ?case by simp
next
  case (3 ref refs t transformedRecords records)
  from "3.prems" have "assignLoop refs transformedRecords
       (records[ref := (records ! ref)\<lparr>paraphrase := paraphrase t\<rparr>]) = Inr page" by simp
  from "3.IH"[OF this] show ?case by (simp only: entries_update)
qed

lemma processPage_entries:
  assumes "processPage env modulePath chunkSize records world = Some (Inr page, world1)"
  shows "map entry page = map entry records \<and> target world1 = target world"
proof -
  let ?t = "transformHtmlRecordsInParallel env (map (\<lambda>i. records ! i) (htmlRefs records))
              modulePath chunkSize world"
  show ?thesis
  proof (cases ?t)
    case None
    with assms show ?thesis by (simp add: processPage_def Let_def)
  next
    case (Some rw)
    obtain r w1 where rw: "rw = (r, w1)" by (cases rw)
    show ?thesis
    proof (cases r)
      case (Inl e)
      with assms Some rw show ?thesis by (simp add: processPage_def Let_def)
    next
      case (Inr ts)
      with assms Some rw have a: "assignLoop (htmlRefs records) ts records = Inr page" "world1 = w1"
        by (simp_all add: processPage_def Let_def)
      from Some rw have "target w1 = target world"
        by (intro transformHtmlRecordsInParallel_target) simp
      with a assignLoop_entries[OF a(1)] show ?thesis by simp
    qed
  qed
qed

lemma insertRecords_entries:
  assumes "insertRecords env records world = Inr world2"
  shows "map row_entry (target world2) = map row_entry (target world) @ map entry records"
proof -
  have "map fst (contents (target world2))
          = map fst (contents (target world) @ map stored records)"
    by (simp only: insertRecords_written[OF assms])
  then show ?thesis by (simp add: contents_entries comp_def stored_def)
qed

text \<open>
  A loop over a generator that ends without an error has written the keys of the rows that
  were pending when it started, whatever the environment did.
\<close>

lemma pipeline_entries:
  assumes ps: "0 < pageSize" and dist: "distinct (map row_id db)"
    and exact: "exactRowids db"
    and body: "\<forall>records world page world1. body records world = Some (Inr page, world1) \<longrightarrow>
                 map entry page = map entry records \<and> target world1 = target world"
    and run: "for_await (generator_next env db contentType pageSize body) (insertRecords env)
                gs world = Some y"
  shows "\<forall>w. gs = Suspended (Some w) \<longrightarrow> fst y = Inr () \<longrightarrow>
           map row_entry (target (snd (snd y)))
             = map row_entry (target world) @ map row_entry (pending db contentType (Some w))"
proof (rule for_await_induct[where
      P = "\<lambda>gs world y. \<forall>w. gs = Suspended (Some w) \<longrightarrow> fst y = Inr () \<longrightarrow>
           map row_entry (target (snd (snd y)))
             = map row_entry (target world) @ map row_entry (pending db contentType (Some w))",
      OF run])
  let ?G = "generator_next env db contentType pageSize body"
  {
    fix gs world e gs1 world1
    show "\<forall>w. gs = Suspended (Some w) \<longrightarrow> fst (Inl e :: Error + unit, gs1 :: GenState, world1 :: World) = Inr () \<longrightarrow>
           map row_entry (target (snd (snd (Inl e :: Error + unit, gs1, world1))))
             = map row_entry (target world) @ map row_entry (pending db contentType (Some w))"
      by simp
  next
    fix gs world gs1 world1
    assume pull: "?G gs world = Some (Inr None, gs1, world1)"
    show "\<forall>w. gs = Suspended (Some w) \<longrightarrow> fst (Inr () :: Error + unit, gs1, world1) = Inr () \<longrightarrow>
           map row_entry (target (snd (snd (Inr () :: Error + unit, gs1, world1))))
             = map row_entry (target world) @ map row_entry (pending db contentType (Some w))"
    proof (intro allI impI)
      fix w assume gs: "gs = Suspended (Some w)"
      from pull have "pagePull env db contentType pageSize body (Some w) world
                        = Some (Inr None, gs1, world1)"
        unfolding gs by (simp add: generator_next_simps)
      from pagePull_fin[OF this]
      have f: "fetchRecordsPaginated db contentType pageSize (Some w) = None"
        and w1: "world1 = pool_terminate world" by simp_all
      from f ps have "pending db contentType (Some w) = []"
        by (simp add: fetchRecordsPaginated_pending split: if_splits)
      with w1 show "map row_entry (target (snd (snd (Inr () :: Error + unit, gs1, world1))))
             = map row_entry (target world) @ map row_entry (pending db contentType (Some w))"
        by (simp add: pool_terminate_counters)
    qed
  next
    fix gs world page gs1 world1 e
    show "\<forall>w. gs = Suspended (Some w) \<longrightarrow>
           fst (Inl e :: Error + unit, fst (generator_return gs1 world1), snd (generator_return gs1 world1)) = Inr () \<longrightarrow>
           map row_entry (target (snd (snd (Inl e :: Error + unit, fst (generator_return gs1 world1),
                                            snd (generator_return gs1 world1)))))
             = map row_entry (target world) @ map row_entry (pending db contentType (Some w))"
      by simp
  next
    fix gs world page gs1 world1 world2 and y :: "(Error + unit) \<times> GenState \<times> World"
    assume pull: "?G gs world = Some (Inr (Some page), gs1, world1)"
      and ins: "insertRecords env page world1 = Inr world2"
      and IH: "\<forall>w. gs1 = Suspended (Some w) \<longrightarrow> fst y = Inr () \<longrightarrow>
           map row_entry (target (snd (snd y)))
             = map row_entry (target world2) @ map row_entry (pending db contentType (Some w))"
    show "\<forall>w. gs = Suspended (Some w) \<longrightarrow> fst y = Inr () \<longrightarrow>
           map row_entry (target (snd (snd y)))
             = map row_entry (target world) @ map row_entry (pending db contentType (Some w))"
    proof (intro allI impI)
      fix w assume gs: "gs = Suspended (Some w)" and ok: "fst y = Inr ()"
      let ?xs = "pending db contentType (Some w)"
      let ?rows = "take pageSize ?xs"
      from pull have "pagePull env db contentType pageSize body (Some w) world
                        = Some (Inr (Some page), gs1, world1)"
        unfolding gs by (simp add: generator_next_simps)
      from pagePull_yield[OF this]
      obtain records where rec: "fetchRecordsPaginated db contentType pageSize (Some w) = Some records"
        "body records world = Some (Inr page, world1)" "gs1 = Suspended (rowid (last records))"
        by blast
      from rec(1) have ne: "?xs \<noteq> []" and records: "records = map recordOfRow ?rows"
        by (simp_all add: fetchRecordsPaginated_pending split: if_splits)
      from body rec(2) have b: "map entry page = map entry records" "target world1 = target world"
        by blast+
      have wm: "rowid (last records) = Some (row_id (last ?rows))"
        unfolding records by (rule watermark_exact[OF exact ps ne])
      have nxt: "pending db contentType (Some (row_id (last ?rows))) = drop pageSize ?xs"
        by (rule pending_next[OF dist ps ne])
      from IH rec(3) wm ok
      have "map row_entry (target (snd (snd y)))
              = map row_entry (target world2) @ map row_entry (drop pageSize ?xs)"
        by (simp add: nxt)
      also have "map row_entry (target world2) = map row_entry (target world) @ map entry records"
        using insertRecords_entries[OF ins] b by simp
      also have "map entry records = map row_entry ?rows"
        unfolding records by (simp add: recordOfRow_def comp_def)
      finally have "map row_entry (target (snd (snd y)))
              = map row_entry (target world) @ (map row_entry ?rows @ map row_entry (drop pageSize ?xs))"
        by simp
      also have "map row_entry ?rows @ map row_entry (drop pageSize ?xs) = map row_entry ?xs"
        unfolding map_append[symmetric] by simp
      finally show "map row_entry (target (snd (snd y)))
             = map row_entry (target world) @ map row_entry ?xs" .
    qed
  }
qed

lemma loop_entries:
  assumes ps: "0 < pageSize" and dist: "distinct (map row_id db)"
    and exact: "exactRowids db"
    and body: "\<forall>records world page world1. body records world = Some (Inr page, world1) \<longrightarrow>
                 map entry page = map entry records \<and> target world1 = target world"
    and run: "for_await (generator_next env db contentType pageSize body) (insertRecords env)
                Fresh world = Some (Inr (), gs', world')"
  shows "map row_entry (target world')
           = map row_entry (target world) @ map row_entry (pending db contentType (Some 0))"
proof -
  from run have "for_await (generator_next env db contentType pageSize body) (insertRecords env)
                (Suspended (Some 0)) (pool_create world) = Some (Inr (), gs', world')"
    by (simp only: for_await_Fresh)
  from pipeline_entries[OF ps dist exact body this]
  show ?thesis by (simp add: pool_create_counters)
qed

lemma workflow_entries:
  assumes ps: "0 < pageSize" and rowids: "uniqueRowids db" "exactRowids db"
    and run: "runTransformWorkflowWith pageSize chunkSize env db modulePath options world
                = Some (Inr (), world')"
  shows "map row_entry (target world')
           = map row_entry (target world)
               @ (if optionsHtmlBeforeLink options
                  then map row_entry (pending db (Some HTML) (Some 0))
                         @ map row_entry (sort_key row_id (filter isLink db))
                  else map row_entry (pending db None (Some 0)))"
proof -
  have dist: "distinct (map row_id db)" using rowids(1) by (simp add: uniqueRowids_def)
  have v: "validateModuleExists env modulePath = Inr ()"
    using run by (cases "validateModuleExists env modulePath") (simp_all add: runTransformWorkflowWith_def)
  show ?thesis
  proof (cases "optionsHtmlBeforeLink options")
    case False
    let ?loop = "for_await (processRecordsInParallel env db modulePath pageSize chunkSize)
                   (insertRecords env) Fresh world"
    have c: "\<exists>n. getTotalRecordCount env db None = Inr n"
      using run v False
      by (cases "getTotalRecordCount env db None") (simp_all add: runTransformWorkflowWith_def)
    then obtain n where n: "getTotalRecordCount env db None = Inr n" by blast
    have "\<exists>gs'. ?loop = Some (Inr (), gs', world')"
    proof (cases ?loop)
      case None
      with run v False n show ?thesis by (simp add: runTransformWorkflowWith_def)
    next
      case (Some out)
      obtain r gs' w1 where out: "out = (r, gs', w1)" by (cases out)
      show ?thesis
      proof (cases r)
        case (Inl e)
        with run v False n Some out show ?thesis by (simp add: runTransformWorkflowWith_def)
      next
        case (Inr u)
        with run v False n Some out have "w1 = world'" by (simp add: runTransformWorkflowWith_def)
        with Some out Inr show ?thesis by simp
      qed
    qed
    then obtain gs' where l: "for_await (generator_next env db None pageSize
           (processPage env modulePath chunkSize)) (insertRecords env) Fresh world
           = Some (Inr (), gs', world')"
      unfolding processRecordsInParallel_def by blast
    have body: "\<forall>records world page world1.
        processPage env modulePath chunkSize records world = Some (Inr page, world1) \<longrightarrow>
        map entry page = map entry records \<and> target world1 = target world"
      using processPage_entries by blast
    from loop_entries[OF ps dist rowids(2) body l] False show ?thesis by simp
  next
    case True
    let ?body = "\<lambda>htmlRecords. transformHtmlRecordsInParallel env htmlRecords modulePath chunkSize"
    let ?loop = "for_await (transformHtmlRecordsInParallel_gen env db modulePath pageSize chunkSize)
                   (insertRecords env) Fresh world"
    have c: "\<exists>n. getTotalRecordCount env db (Some HTML) = Inr n"
      using run v True
      by (cases "getTotalRecordCount env db (Some HTML)") (simp_all add: runTransformWorkflowWith_def)
    then obtain n where n: "getTotalRecordCount env db (Some HTML) = Inr n" by blast
    have "\<exists>gs' world1. ?loop = Some (Inr (), gs', world1) \<and>
            insertRecords env (fetchLinkRecords db) world1 = Inr world'"
    proof (cases ?loop)
      case None
      with run v True n show ?thesis by (simp add: runTransformWorkflowWith_def)
    next
      case (Some out)
      obtain r gs' w1 where out: "out = (r, gs', w1)" by (cases out)
      show ?thesis
      proof (cases r)
        case (Inl e)
        with run v True n Some out show ?thesis by (simp add: runTransformWorkflowWith_def)
      next
        case (Inr u)
        show ?thesis
        proof (cases "insertRecords env (fetchLinkRecords db) w1")
          case (Inl e)
          with run v True n Some out Inr show ?thesis
            by (simp add: runTransformWorkflowWith_def split: if_splits)
        next
          case ins: (Inr w2)
          with run v True n Some out Inr have "w2 = world'"
            by (simp add: runTransformWorkflowWith_def split: if_splits)
          with Some out Inr ins show ?thesis by simp
        qed
      qed
    qed
    then obtain gs' world1 where l: "for_await (generator_next env db (Some HTML) pageSize ?body)
           (insertRecords env) Fresh world = Some (Inr (), gs', world1)"
      and ins: "insertRecords env (fetchLinkRecords db) world1 = Inr world'"
      unfolding transformHtmlRecordsInParallel_gen_def by blast
    have body: "\<forall>records world page world1.
        ?body records world = Some (Inr page, world1) \<longrightarrow>
        map entry page = map entry records \<and> target world1 = target world"
      using transformHtmlRecordsInParallel_entries transformHtmlRecordsInParallel_target by blast
    from loop_entries[OF ps dist rowids(2) body l]
    have "map row_entry (target world1)
           = map row_entry (target world) @ map row_entry (pending db (Some HTML) (Some 0))" .
    moreover have "map entry (fetchLinkRecords db) = map row_entry (sort_key row_id (filter isLink db))"
      by (simp add: fetchLinkRecords_rows recordOfRow_def comp_def)
    ultimately show ?thesis using insertRecords_entries[OF ins] True by simp
  qed
qed

subsection \<open>One import per worker context\<close>

lemma transformHtmlRecords_cachedOnce:
  assumes "files env p = Exports f" and "cachedOnce p f g"
  shows "transformHtmlRecords env records p g
           = (settle f records,
              \<lparr>transformHtml = Some f, transformModulePath = Some p, importLog = [p]\<rparr>)"
proof -
  from assms(2) show ?thesis
  proof (unfold cachedOnce_def, elim disjE)
    assume "g = freshGlobals"
    with assms(1) show ?thesis
      by (simp add: transformHtmlRecords_def Let_def freshGlobals_def applyCached_def settle_def)
  next
    assume "g = \<lparr>transformHtml = Some f, transformModulePath = Some p, importLog = [p]\<rparr>"
    then show ?thesis
      by (simp add: transformHtmlRecords_def applyCached_def settle_def)
  qed
qed

lemma cachedOnce_used: "cachedOnce p f g \<Longrightarrow> importLog g \<noteq> [] \<Longrightarrow> importLog g = [p]"
  by (auto simp: cachedOnce_def freshGlobals_def)

lemma pool_exec_cachedOnce:
  assumes "files env p = Exports f" and "\<forall>w. cachedOnce p f (workers world w)"
  shows "\<forall>w. cachedOnce p f (workers (snd (pool_exec env chunk p world)) w)"
proof
  fix w
  let ?k = "schedule env (dispatched world) mod max 1 (poolSize env)"
  have "cachedOnce p f (workers world ?k)" using assms(2) by simp
  from transformHtmlRecords_cachedOnce[OF assms(1) this, of chunk]
  have "workers (snd (pool_exec env chunk p world))
          = (workers world)(?k := \<lparr>transformHtml = Some f, transformModulePath = Some p,
                                    importLog = [p]\<rparr>)"
    by (simp add: pool_exec_def Let_def split_beta)
  with assms(2) show "cachedOnce p f (workers (snd (pool_exec env chunk p world)) w)"
    by (simp add: cachedOnce_def)
qed

lemma execChunks_cachedOnce:
  assumes "files env p = Exports f"
  shows "\<forall>w. cachedOnce p f (workers world w) \<Longrightarrow>
         \<forall>w. cachedOnce p f (workers (snd (execChunks env p chunks world)) w)"
proof (induction chunks arbitrary: world)
  case Nil
  then show ?case by simp
next
  case (Cons chunk chunks)
  have "\<forall>w. cachedOnce p f (workers (snd (pool_exec env chunk p world)) w)"
    by (rule pool_exec_cachedOnce[OF assms Cons.prems])
  from Cons.IH[OF this] show ?case by (simp add: split_beta)
qed

text \<open>
  The contexts of the pool of a generator. The loop of the workflow does not touch them,
  and the generator hands every chunk to the pool with the one path it was given.
\<close>

lemma transformHtmlRecordsInParallel_workers:
  assumes "files env (resolve env givenPath) = Exports f"
    and "\<forall>w. cachedOnce (resolve env givenPath) f (workers world w)"
    and "transformHtmlRecordsInParallel env htmlRecords givenPath chunkSize world = Some (res, world1)"
  shows "\<forall>w. cachedOnce (resolve env givenPath) f (workers world1 w)"
proof (cases "chunkLoop htmlRecords chunkSize 0 []")
  case None
  with assms(3) show ?thesis by (simp add: transformHtmlRecordsInParallel_def)
next
  case (Some chunks)
  let ?x = "execChunks env (resolve env givenPath) chunks world"
  have "world1 = snd ?x"
    using assms(3) Some
    by (cases "promiseAll (fst ?x)") (simp_all add: transformHtmlRecordsInParallel_def split_beta)
  with execChunks_cachedOnce[OF assms(1,2), of chunks] show ?thesis by simp
qed

lemma processPage_workers:
  assumes "files env (resolve env givenPath) = Exports f"
    and "\<forall>w. cachedOnce (resolve env givenPath) f (workers world w)"
    and "processPage env givenPath chunkSize records world = Some (res, world1)"
  shows "\<forall>w. cachedOnce (resolve env givenPath) f (workers world1 w)"
proof -
  let ?t = "transformHtmlRecordsInParallel env (map (\<lambda>i. records ! i) (htmlRefs records))
              givenPath chunkSize world"
  from assms(3) obtain r where "?t = Some (r, world1)"
    by (cases ?t; cases "fst (the ?t)") (auto simp: processPage_def Let_def)
  from transformHtmlRecordsInParallel_workers[OF assms(1,2) this] show ?thesis .
qed

lemma pagePull_workers:
  assumes body: "\<forall>records w r w1. I (workers w) \<longrightarrow> body records w = Some (r, w1) \<longrightarrow> I (workers w1)"
    and start: "I (workers world)"
    and pull: "pagePull env db contentType pageSize body lw world = Some (res, gs1, world1)"
  shows "I (workers world1) \<and> gs1 \<noteq> Fresh"
proof (cases "sourceFault env (PageQuery contentType lw)")
  case True
  with pull start show ?thesis by (auto simp: pagePull_def pool_terminate_counters)
next
  case noFault: False
  show ?thesis
  proof (cases "fetchRecordsPaginated db contentType pageSize lw")
    case None
    with pull noFault start show ?thesis by (auto simp: pagePull_def pool_terminate_counters)
  next
    case (Some records)
    show ?thesis
    proof (cases "body records world")
      case None
      with pull noFault Some show ?thesis by (simp add: pagePull_def)
    next
      case bodySome: (Some rw)
      obtain r w1 where rw: "rw = (r, w1)" by (cases rw)
      from body start bodySome rw have i: "I (workers w1)" by blast
      show ?thesis
      proof (cases r)
        case (Inl e)
        with pull noFault Some bodySome rw i show ?thesis
          by (auto simp: pagePull_def pool_terminate_counters)
      next
        case (Inr page)
        with pull noFault Some bodySome rw i show ?thesis
          by (auto simp: pagePull_def)
      qed
    qed
  qed
qed

lemma generator_next_workers:
  assumes body: "\<forall>records w r w1. I (workers w) \<longrightarrow> body records w = Some (r, w1) \<longrightarrow> I (workers w1)"
    and fresh: "I (\<lambda>_. freshGlobals)"
    and start: "gs = Fresh \<or> I (workers world)"
    and pull: "generator_next env db contentType pageSize body gs world = Some (res, gs1, world1)"
  shows "I (workers world1) \<and> gs1 \<noteq> Fresh"
proof (cases gs)
  case Fresh
  have "I (workers (pool_create world))" using fresh by (simp add: pool_create_counters)
  from pagePull_workers[OF body this] pull show ?thesis
    unfolding Fresh generator_next_simps by blast
next
  case (Suspended lw)
  with start have "I (workers world)" by simp
  from pagePull_workers[OF body this] pull show ?thesis
    unfolding Suspended generator_next_simps by blast
next
  case Finished
  with start pull show ?thesis by (auto simp: generator_next_simps)
qed

lemma insertRecords_workers: "insertRecords env page world = Inr world' \<Longrightarrow> workers world' = workers world"
  by (auto simp: insertRecords_def split: if_splits)

lemma loop_workers:
  assumes body: "\<forall>records w r w1. I (workers w) \<longrightarrow> body records w = Some (r, w1) \<longrightarrow> I (workers w1)"
    and fresh: "I (\<lambda>_. freshGlobals)"
    and run: "for_await (generator_next env db contentType pageSize body) (insertRecords env)
                gs world = Some y"
  shows "gs = Fresh \<or> I (workers world) \<longrightarrow> I (workers (snd (snd y)))"
proof (rule for_await_induct[where
      P = "\<lambda>gs world y. gs = Fresh \<or> I (workers world) \<longrightarrow> I (workers (snd (snd y)))", OF run])
  let ?G = "generator_next env db contentType pageSize body"
  {
    fix gs world e gs1 world1
    assume "?G gs world = Some (Inl e, gs1, world1)"
    from generator_next_workers[OF body fresh _ this]
    show "gs = Fresh \<or> I (workers world) \<longrightarrow>
            I (workers (snd (snd (Inl e :: Error + unit, gs1, world1))))" by simp
  next
    fix gs world gs1 world1
    assume "?G gs world = Some (Inr None, gs1, world1)"
    from generator_next_workers[OF body fresh _ this]
    show "gs = Fresh \<or> I (workers world) \<longrightarrow>
            I (workers (snd (snd (Inr () :: Error + unit, gs1, world1))))" by simp
  next
    fix gs world page gs1 world1 e
    assume pull: "?G gs world = Some (Inr (Some page), gs1, world1)"
    show "gs = Fresh \<or> I (workers world) \<longrightarrow>
            I (workers (snd (snd (Inl e :: Error + unit, fst (generator_return gs1 world1),
                                  snd (generator_return gs1 world1)))))"
    proof
      assume "gs = Fresh \<or> I (workers world)"
      from generator_next_workers[OF body fresh this pull] have "I (workers world1)" by simp
      then show "I (workers (snd (snd (Inl e :: Error + unit, fst (generator_return gs1 world1),
                                  snd (generator_return gs1 world1)))))"
        by (cases gs1) (simp_all add: generator_return_def pool_terminate_counters)
    qed
  next
    fix gs world page gs1 world1 world2 and y :: "(Error + unit) \<times> GenState \<times> World"
    assume pull: "?G gs world = Some (Inr (Some page), gs1, world1)"
      and ins: "insertRecords env page world1 = Inr world2"
      and IH: "gs1 = Fresh \<or> I (workers world2) \<longrightarrow> I (workers (snd (snd y)))"
    show "gs = Fresh \<or> I (workers world) \<longrightarrow> I (workers (snd (snd y)))"
    proof
      assume "gs = Fresh \<or> I (workers world)"
      from generator_next_workers[OF body fresh this pull] have "I (workers world1)" by simp
      with insertRecords_workers[OF ins] have "I (workers world2)" by simp
      with IH show "I (workers (snd (snd y)))" by simp
    qed
  }
qed

subsection \<open>Runs outside the exact and positive rowids\<close>

lemma toNumber_examples:
  "toNumber 9007199254740993 = 9007199254740992"
  "toNumber 9007199254740995 = 9007199254740996"
proof -
  have s: "spacing 4503599627370496 = 1" "spacing 4503599627370497 = 1"
    by (simp_all add: spacing_small)
  have "spacing 9007199254740993 = 2 * spacing 4503599627370496"
    by (subst spacing_step) simp_all
  then have a: "spacing 9007199254740993 = 2" by (simp add: s)
  have "spacing 9007199254740995 = 2 * spacing 4503599627370497"
    by (subst spacing_step) simp_all
  then have b: "spacing 9007199254740995 = 2" by (simp add: s)
  show "toNumber 9007199254740993 = 9007199254740992"
    by (simp add: toNumber_def Let_def a)
  show "toNumber 9007199254740995 = 9007199254740996"
    by (simp add: toNumber_def Let_def b)
qed

text \<open>One turn of the loop of the workflow, the end of the loop, and a loop that never ends.\<close>

lemma loop_step:
  assumes nf: "\<forall>q. \<not> sourceFault env q" "\<forall>n. \<not> targetFault env n"
    and body: "\<forall>records world. poolSound env world \<longrightarrow>
        (\<exists>world1. body records world = Some (Inr (map \<phi> records), world1) \<and>
                   poolSound env world1 \<and> target world1 = target world \<and>
                   insertSizes world1 = insertSizes world)"
    and fetch: "fetchRecordsPaginated db contentType pageSize lw = Some records"
    and sound: "poolSound env world"
  shows "\<exists>world2.
           for_await (generator_next env db contentType pageSize body) (insertRecords env)
             (Suspended lw) world
           = for_await (generator_next env db contentType pageSize body) (insertRecords env)
               (Suspended (rowid (last records))) world2 \<and>
           poolSound env world2 \<and>
           contents (target world2) = contents (target world) @ map stored (map \<phi> records)"
proof -
  let ?G = "generator_next env db contentType pageSize body"
  from body sound obtain world1 where w1:
    "body records world = Some (Inr (map \<phi> records), world1)"
    "poolSound env world1" "target world1 = target world" by blast
  have pull: "?G (Suspended lw) world
                = Some (Inr (Some (map \<phi> records)), Suspended (rowid (last records)), world1)"
    using nf(1) fetch w1(1) by (simp add: generator_next_simps pagePull_def)
  from insertRecords_ok[of env world1 "map \<phi> records"] nf(2)
  obtain world2 where w2: "insertRecords env (map \<phi> records) world1 = Inr world2"
    "contents (target world2) = contents (target world1) @ map stored (map \<phi> records)"
    "workers world2 = workers world1"
    by blast
  have "poolSound env world2" using w1(2) w2(3) by (simp add: poolSound_def)
  moreover have "for_await ?G (insertRecords env) (Suspended lw) world
                   = for_await ?G (insertRecords env) (Suspended (rowid (last records))) world2"
  proof (rule for_await_step[where page = "map \<phi> records" and ?world1.0 = world1])
    show "?G (Suspended lw) world
            = Some (Inr (Some (map \<phi> records)), Suspended (rowid (last records)), world1)"
      by (rule pull)
    show "insertRecords env (map \<phi> records) world1 = Inr world2" by (rule w2(1))
  qed
  moreover have "contents (target world2) = contents (target world) @ map stored (map \<phi> records)"
    using w2(2) w1(3) by simp
  ultimately show ?thesis by blast
qed

lemma loop_end:
  assumes "\<forall>q. \<not> sourceFault env q"
    and "fetchRecordsPaginated db contentType pageSize lw = None"
  shows "for_await (generator_next env db contentType pageSize body) (insertRecords env)
           (Suspended lw) world = Some (Inr (), Finished, pool_terminate world)"
  by (rule for_await_done) (use assms in \<open>simp add: generator_next_simps pagePull_def\<close>)

lemma loop_never:
  assumes nf: "\<forall>q. \<not> sourceFault env q" "\<forall>n. \<not> targetFault env n"
    and body: "\<forall>records world. poolSound env world \<longrightarrow>
        (\<exists>world1. body records world = Some (Inr (map \<phi> records), world1) \<and>
                   poolSound env world1 \<and> target world1 = target world \<and>
                   insertSizes world1 = insertSizes world)"
    and fetch: "fetchRecordsPaginated db contentType pageSize lw = Some records"
    and stuck: "rowid (last records) = lw"
    and sound: "poolSound env world"
  shows "for_await (generator_next env db contentType pageSize body) (insertRecords env)
           (Suspended lw) world = None"
proof (rule for_await_never[where I = "poolSound env"])
  let ?G = "generator_next env db contentType pageSize body"
  show "\<forall>world. poolSound env world \<longrightarrow>
      (\<exists>page world1 world2. ?G (Suspended lw) world = Some (Inr (Some page), Suspended lw, world1) \<and>
         insertRecords env page world1 = Inr world2 \<and> poolSound env world2)"
  proof (intro allI impI)
    fix world assume s: "poolSound env world"
    from body s obtain world1 where w1:
      "body records world = Some (Inr (map \<phi> records), world1)" "poolSound env world1" by blast
    have pull: "?G (Suspended lw) world = Some (Inr (Some (map \<phi> records)), Suspended lw, world1)"
      using nf(1) fetch w1(1) stuck by (simp add: generator_next_simps pagePull_def)
    from insertRecords_ok[of env world1 "map \<phi> records"] nf(2)
    obtain world2 where w2: "insertRecords env (map \<phi> records) world1 = Inr world2"
      "workers world2 = workers world1" by blast
    have "poolSound env world2" using w1(2) w2(2) by (simp add: poolSound_def)
    with pull w2(1) show "\<exists>page world1 world2.
         ?G (Suspended lw) world = Some (Inr (Some page), Suspended lw, world1) \<and>
         insertRecords env page world1 = Inr world2 \<and> poolSound env world2" by blast
  qed
  show "poolSound env world" by (rule sound)
qed

lemma identityEnv_bodies:
  "\<forall>records world. poolSound identityEnv world \<longrightarrow>
     (\<exists>world1. processPage identityEnv ''t.js'' 1000 records world
                  = Some (Inr (map (reassembled (\<lambda>s. s)) records), world1) \<and>
                poolSound identityEnv world1 \<and> target world1 = target world \<and>
                insertSizes world1 = insertSizes world)"
  "\<forall>records world. poolSound identityEnv world \<longrightarrow>
     (\<exists>world1. transformHtmlRecordsInParallel identityEnv records ''t.js'' 1000 world
                  = Some (Inr (map (transformed (\<lambda>s. s)) records), world1) \<and>
                poolSound identityEnv world1 \<and> target world1 = target world \<and>
                insertSizes world1 = insertSizes world)"
proof -
  have c: "(0::nat) < 1000" by simp
  have m: "files identityEnv (resolve identityEnv ''t.js'') = Exports (\<lambda>s. Some s)"
    by (rule identityEnv_props)
  show "\<forall>records world. poolSound identityEnv world \<longrightarrow>
     (\<exists>world1. processPage identityEnv ''t.js'' 1000 records world
                  = Some (Inr (map (reassembled (\<lambda>s. s)) records), world1) \<and>
                poolSound identityEnv world1 \<and> target world1 = target world \<and>
                insertSizes world1 = insertSizes world)"
  proof (intro allI impI)
    fix records world assume s: "poolSound identityEnv world"
    show "\<exists>world1. processPage identityEnv ''t.js'' 1000 records world
                  = Some (Inr (map (reassembled (\<lambda>s. s)) records), world1) \<and>
                poolSound identityEnv world1 \<and> target world1 = target world \<and>
                insertSizes world1 = insertSizes world"
      by (rule processPage_page[where f = Some and h = "\<lambda>s. s", OF c m _ s]) simp
  qed
  show "\<forall>records world. poolSound identityEnv world \<longrightarrow>
     (\<exists>world1. transformHtmlRecordsInParallel identityEnv records ''t.js'' 1000 world
                  = Some (Inr (map (transformed (\<lambda>s. s)) records), world1) \<and>
                poolSound identityEnv world1 \<and> target world1 = target world \<and>
                insertSizes world1 = insertSizes world)"
  proof (intro allI impI)
    fix records world assume s: "poolSound identityEnv world"
    show "\<exists>world1. transformHtmlRecordsInParallel identityEnv records ''t.js'' 1000 world
                  = Some (Inr (map (transformed (\<lambda>s. s)) records), world1) \<and>
                poolSound identityEnv world1 \<and> target world1 = target world \<and>
                insertSizes world1 = insertSizes world"
      by (rule transformHtmlRecordsInParallel_page[where f = Some and h = "\<lambda>s. s", OF c m _ s]) simp
  qed
qed

text \<open>
  The row at rowid \<open>2 ^ 53 + 1\<close> is read with the rowid \<open>2 ^ 53\<close>. Once it is the last row of
  a page, every later page query returns it again.
\<close>

lemma roundedDown_pages:
  "fetchRecordsPaginated roundedDownSource None 10000 (Some 0)
     = Some [recordOfRow (mkRow 1 ''x'' ''@@@LINK=a'' LINK),
             recordOfRow (mkRow 9007199254740993 ''a'' ''a'' HTML)]"
  "fetchRecordsPaginated roundedDownSource (Some HTML) 10000 (Some 0)
     = Some [recordOfRow (mkRow 9007199254740993 ''a'' ''a'' HTML)]"
  "fetchRecordsPaginated roundedDownSource contentType 10000 (Some 9007199254740992)
     = (if contentType = None \<or> contentType = Some HTML
        then Some [recordOfRow (mkRow 9007199254740993 ''a'' ''a'' HTML)] else None)"
  "rowid (recordOfRow (mkRow 9007199254740993 ''a'' ''a'' HTML)) = Some 9007199254740992"
  by (auto simp: fetchRecordsPaginated_def selectPage_def roundedDownSource_def mkRow_def
        matchesType_def HTML_def LINK_def recordOfRow_def toNumber_examples split: option.splits)

lemma roundedDown_interleaved:
  "for_await (processRecordsInParallel identityEnv roundedDownSource ''t.js'' 10000 1000)
     (insertRecords identityEnv) Fresh initialWorld = None"
proof -
  let ?body = "processPage identityEnv ''t.js'' 1000"
  let ?G = "generator_next identityEnv roundedDownSource None 10000 ?body"
  let ?a = "recordOfRow (mkRow 9007199254740993 ''a'' ''a'' HTML)"
  let ?x = "recordOfRow (mkRow 1 ''x'' ''@@@LINK=a'' LINK)"
  note nf = identityEnv_props(2,3)
  from loop_step[OF nf identityEnv_bodies(1) roundedDown_pages(1) poolSound_create, of initialWorld]
  obtain world2 where w2:
    "for_await ?G (insertRecords identityEnv) (Suspended (Some 0)) (pool_create initialWorld)
       = for_await ?G (insertRecords identityEnv) (Suspended (rowid (last [?x, ?a]))) world2"
    "poolSound identityEnv world2" by blast
  have f: "fetchRecordsPaginated roundedDownSource None 10000 (Some 9007199254740992) = Some [?a]"
    by (simp add: roundedDown_pages(3))
  have s: "rowid (last [?a]) = Some 9007199254740992" by (simp add: roundedDown_pages(4))
  have "for_await ?G (insertRecords identityEnv) (Suspended (Some 9007199254740992)) world2 = None"
    by (rule loop_never[OF nf identityEnv_bodies(1) f s w2(2)])
  with w2(1) show ?thesis
    unfolding processRecordsInParallel_def for_await_Fresh by (simp add: roundedDown_pages(4))
qed

lemma roundedDown_htmlFirst:
  "for_await (transformHtmlRecordsInParallel_gen identityEnv roundedDownSource ''t.js'' 10000 1000)
     (insertRecords identityEnv) Fresh initialWorld = None"
proof -
  let ?body = "\<lambda>htmlRecords. transformHtmlRecordsInParallel identityEnv htmlRecords ''t.js'' 1000"
  let ?G = "generator_next identityEnv roundedDownSource (Some HTML) 10000 ?body"
  let ?a = "recordOfRow (mkRow 9007199254740993 ''a'' ''a'' HTML)"
  note nf = identityEnv_props(2,3)
  from loop_step[OF nf identityEnv_bodies(2) roundedDown_pages(2) poolSound_create, of initialWorld]
  obtain world2 where w2:
    "for_await ?G (insertRecords identityEnv) (Suspended (Some 0)) (pool_create initialWorld)
       = for_await ?G (insertRecords identityEnv) (Suspended (rowid (last [?a]))) world2"
    "poolSound identityEnv world2" by blast
  have f: "fetchRecordsPaginated roundedDownSource (Some HTML) 10000 (Some 9007199254740992)
             = Some [?a]"
    by (simp add: roundedDown_pages(3))
  have s: "rowid (last [?a]) = Some 9007199254740992" by (simp add: roundedDown_pages(4))
  have "for_await ?G (insertRecords identityEnv) (Suspended (Some 9007199254740992)) world2 = None"
    by (rule loop_never[OF nf identityEnv_bodies(2) f s w2(2)])
  with w2(1) show ?thesis
    unfolding transformHtmlRecordsInParallel_gen_def for_await_Fresh
    by (simp add: roundedDown_pages(4))
qed

lemma roundedDown_runs:
  "runTransformWorkflow identityEnv roundedDownSource ''t.js'' None initialWorld = None"
  "runTransformWorkflow identityEnv roundedDownSource ''t.js'' htmlBeforeLinkOptions initialWorld = None"
  by (simp_all add: runTransformWorkflow_def runTransformWorkflowWith_def validateModuleExists_ok
        getTotalRecordCount_ok identityEnv_props optionsHtmlBeforeLink_def htmlBeforeLinkOptions_def
        roundedDown_interleaved roundedDown_htmlFirst)

text \<open>
  The row at rowid \<open>2 ^ 53 + 3\<close> is read with the rowid \<open>2 ^ 53 + 4\<close>. Once it is the last row
  of a page, the row at rowid \<open>2 ^ 53 + 4\<close> is on no page.
\<close>

lemma roundedUp_run:
  "\<exists>world'.
     loopRun (for_await (processRecordsInParallel identityEnv roundedUpSource ''t.js'' 1 1000)
                (insertRecords identityEnv) Fresh initialWorld) = Some (Inr (), world') \<and>
     contents (target world') = [(''a'', ''a'', Some HTML)]"
proof -
  let ?body = "processPage identityEnv ''t.js'' 1000"
  let ?G = "generator_next identityEnv roundedUpSource None 1 ?body"
  let ?a = "recordOfRow (mkRow 9007199254740995 ''a'' ''a'' HTML)"
  note nf = identityEnv_props(2,3)
  have p1: "fetchRecordsPaginated roundedUpSource None 1 (Some 0) = Some [?a]"
    by (simp add: fetchRecordsPaginated_def selectPage_def roundedUpSource_def mkRow_def
          matchesType_def)
  have wm: "rowid (last [?a]) = Some 9007199254740996"
    by (simp add: recordOfRow_def mkRow_def toNumber_examples)
  have p2: "fetchRecordsPaginated roundedUpSource None 1 (Some 9007199254740996) = None"
    by (simp add: fetchRecordsPaginated_def selectPage_def roundedUpSource_def mkRow_def
          matchesType_def)
  from loop_step[OF nf identityEnv_bodies(1) p1 poolSound_create, of initialWorld]
  obtain world2 where w2:
    "for_await ?G (insertRecords identityEnv) (Suspended (Some 0)) (pool_create initialWorld)
       = for_await ?G (insertRecords identityEnv) (Suspended (rowid (last [?a]))) world2"
    "contents (target world2)
       = contents (target (pool_create initialWorld)) @ map stored (map (reassembled (\<lambda>s. s)) [?a])"
    by blast
  have c: "contents (target (pool_terminate world2)) = [(''a'', ''a'', Some HTML)]"
    unfolding pool_terminate_counters w2(2)
    by (simp add: pool_create_counters initialWorld_def contents_def stored_def reassembled_def
          transformed_def recordOfRow_def mkRow_def defaultContentType_def)
  have run: "for_await (processRecordsInParallel identityEnv roundedUpSource ''t.js'' 1 1000)
               (insertRecords identityEnv) Fresh initialWorld
             = Some (Inr (), Finished, pool_terminate world2)"
    unfolding processRecordsInParallel_def for_await_Fresh w2(1) wm
    by (rule loop_end[OF nf(1) p2])
  have "loopRun (for_await (processRecordsInParallel identityEnv roundedUpSource ''t.js'' 1 1000)
                (insertRecords identityEnv) Fresh initialWorld)
          = Some (Inr (), pool_terminate world2)"
    unfolding run by (simp add: loopRun_def)
  with c show ?thesis by blast
qed

text \<open>Runs of the workflow over a source with a row at rowid 0, and with a row of kind NULL.\<close>

lemma zeroRowid_run:
  "\<exists>world'. runTransformWorkflow identityEnv zeroRowidSource ''t.js'' None initialWorld
               = Some (Inr (), world') \<and>
             contents (target world') = [(''b'', ''b'', Some HTML)]"
proof -
  have p: "(0::nat) < 10000" "(0::nat) < 1000" by simp_all
  have o: "\<not> optionsHtmlBeforeLink None" by (simp add: optionsHtmlBeforeLink_def)
  have u: "uniqueRowids zeroRowidSource" "exactRowids zeroRowidSource"
    by (simp_all add: uniqueRowids_def exactRowids_def zeroRowidSource_def mkRow_def toNumber_exact)
  have "\<exists>world' sizes.
           runTransformWorkflowWith 10000 1000 identityEnv zeroRowidSource ''t.js'' None initialWorld
             = Some (Inr (), world') \<and>
           contents (target world') =
             contents (target initialWorld)
               @ map (\<lambda>r. (row_entry r, interleavedContent (\<lambda>s. s) r,
                            Some (defaultContentType (recordOfRow r))))
                   (sort_key row_id (filter (\<lambda>r. 0 < row_id r) zeroRowidSource)) \<and>
           insertSizes world' = insertSizes initialWorld @ sizes \<and>
           sum_list sizes = length (filter (\<lambda>r. 0 < row_id r) zeroRowidSource)"
    by (rule workflow_interleaved[where f = Some and h = "\<lambda>s. s",
          OF p identityEnv_props(1) _ identityEnv_props(2,3) u identityEnv_props(4) o])
       simp
  then obtain world' where r:
    "runTransformWorkflowWith 10000 1000 identityEnv zeroRowidSource ''t.js'' None initialWorld
       = Some (Inr (), world')"
    "contents (target world') =
       contents (target initialWorld)
         @ map (\<lambda>r. (row_entry r, interleavedContent (\<lambda>s. s) r,
                      Some (defaultContentType (recordOfRow r))))
             (sort_key row_id (filter (\<lambda>r. 0 < row_id r) zeroRowidSource))"
    by blast
  have "contents (target world') = [(''b'', ''b'', Some HTML)]"
    unfolding r(2)
    by (simp add: initialWorld_def contents_def zeroRowidSource_def mkRow_def
          interleavedContent_def defaultContentType_def recordOfRow_def)
  with r(1) show ?thesis by (simp add: runTransformWorkflow_def)
qed

lemma nullKind_run:
  "\<exists>world'. runTransformWorkflow identityEnv nullKindSource ''t.js'' htmlBeforeLinkOptions initialWorld
               = Some (Inr (), world') \<and>
             contents (target world') = [(''a'', ''a'', Some HTML)]"
proof -
  have p: "(0::nat) < 10000" "(0::nat) < 1000" by simp_all
  have o: "optionsHtmlBeforeLink htmlBeforeLinkOptions"
    by (simp add: optionsHtmlBeforeLink_def htmlBeforeLinkOptions_def)
  have u: "uniqueRowids nullKindSource" "exactRowids (filter isHtml nullKindSource)"
    by (simp_all add: uniqueRowids_def exactRowids_def nullKindSource_def mkRow_def toNumber_exact)
  have "\<exists>world' sizes.
          runTransformWorkflowWith 10000 1000 identityEnv nullKindSource ''t.js'' htmlBeforeLinkOptions
            initialWorld = Some (Inr (), world') \<and>
          contents (target world') =
            contents (target initialWorld)
              @ map (\<lambda>r. (row_entry r, (\<lambda>s. s) (row_paraphrase r), Some HTML))
                  (sort_key row_id (filter (\<lambda>r. isHtml r \<and> 0 < row_id r) nullKindSource))
              @ map (\<lambda>r. (row_entry r, row_paraphrase r, Some LINK))
                  (sort_key row_id (filter isLink nullKindSource)) \<and>
          insertSizes world' = insertSizes initialWorld @ sizes @ [length (filter isLink nullKindSource)] \<and>
          sum_list sizes = length (filter (\<lambda>r. isHtml r \<and> 0 < row_id r) nullKindSource)"
    by (rule workflow_htmlFirst[where f = Some and h = "\<lambda>s. s",
          OF p identityEnv_props(1) _ identityEnv_props(2,3) u identityEnv_props(4) o])
       simp
  then obtain world' where r:
    "runTransformWorkflowWith 10000 1000 identityEnv nullKindSource ''t.js'' htmlBeforeLinkOptions
       initialWorld = Some (Inr (), world')"
    "contents (target world') =
       contents (target initialWorld)
         @ map (\<lambda>r. (row_entry r, (\<lambda>s. s) (row_paraphrase r), Some HTML))
             (sort_key row_id (filter (\<lambda>r. isHtml r \<and> 0 < row_id r) nullKindSource))
         @ map (\<lambda>r. (row_entry r, row_paraphrase r, Some LINK))
             (sort_key row_id (filter isLink nullKindSource))"
    by blast
  have "contents (target world') = [(''a'', ''a'', Some HTML)]"
    unfolding r(2)
    by (simp add: initialWorld_def contents_def nullKindSource_def mkRow_def isHtml_def isLink_def
          HTML_def LINK_def)
  with r(1) show ?thesis by (simp add: runTransformWorkflow_def)
qed

section \<open>The claims\<close>

text \<open>
  C1, as stated, fails on four kinds of input; each run below completes, and the destination
  is short of the source. In the \<open>htmlBeforeLink\<close> mode the workflow reads the HTML rows and
  the LINK rows only: of the source a (HTML), n (kind NULL) it writes a alone. Both
  generators page from the watermark 0: of the source a (rowid 0), b (rowid 1) the workflow
  writes b alone. The generators are public methods that take the sizes: with a page size of
  0 the loop over \<^verbatim>\<open>processRecordsInParallel\<close> ends at once and writes none of the five
  records a, x, b, y, c; with a page size of 1 and the rows a at rowid \<open>2 ^ 53 + 3\<close> and b at
  \<open>2 ^ 53 + 4\<close>, the rowid of a is read as the number \<open>2 ^ 53 + 4\<close>, and the loop writes a
  alone.
\<close>

theorem record_count_counterexample:
  "length nullKindSource = 2 \<and>
   outcome (runTransformWorkflow identityEnv nullKindSource ''t.js'' htmlBeforeLinkOptions initialWorld)
     = Some (Inr ()) \<and>
   written (runTransformWorkflow identityEnv nullKindSource ''t.js'' htmlBeforeLinkOptions initialWorld)
     = Some [(''a'', ''a'', Some HTML)] \<and>
   length zeroRowidSource = 2 \<and>
   outcome (runTransformWorkflow identityEnv zeroRowidSource ''t.js'' None initialWorld)
     = Some (Inr ()) \<and>
   written (runTransformWorkflow identityEnv zeroRowidSource ''t.js'' None initialWorld)
     = Some [(''b'', ''b'', Some HTML)] \<and>
   length axbycSource = 5 \<and>
   loopRun (for_await (processRecordsInParallel identityEnv axbycSource ''t.js'' 0 1000)
              (insertRecords identityEnv) Fresh initialWorld)
     = Some (Inr (), pool_terminate (pool_create initialWorld)) \<and>
   target (pool_terminate (pool_create initialWorld)) = [] \<and>
   length roundedUpSource = 2 \<and>
   outcome (loopRun (for_await (processRecordsInParallel identityEnv roundedUpSource ''t.js'' 1 1000)
                       (insertRecords identityEnv) Fresh initialWorld))
     = Some (Inr ()) \<and>
   written (loopRun (for_await (processRecordsInParallel identityEnv roundedUpSource ''t.js'' 1 1000)
                       (insertRecords identityEnv) Fresh initialWorld))
     = Some [(''a'', ''a'', Some HTML)]"
proof -
  have n: "outcome (runTransformWorkflow identityEnv nullKindSource ''t.js'' htmlBeforeLinkOptions initialWorld)
     = Some (Inr ()) \<and>
   written (runTransformWorkflow identityEnv nullKindSource ''t.js'' htmlBeforeLinkOptions initialWorld)
     = Some [(''a'', ''a'', Some HTML)]"
    using nullKind_run by (auto simp: outcome_def written_def)
  have z: "outcome (runTransformWorkflow identityEnv zeroRowidSource ''t.js'' None initialWorld)
     = Some (Inr ()) \<and>
   written (runTransformWorkflow identityEnv zeroRowidSource ''t.js'' None initialWorld)
     = Some [(''b'', ''b'', Some HTML)]"
    using zeroRowid_run by (auto simp: outcome_def written_def)
  have sel: "selectPage axbycSource None (Some 0) 0 = []" by (simp add: selectPage_def)
  have nf: "\<not> sourceFault identityEnv (PageQuery None (Some 0))" by (simp add: identityEnv_def)
  have "for_await (processRecordsInParallel identityEnv axbycSource ''t.js'' 0 1000)
          (insertRecords identityEnv) Fresh initialWorld
        = Some (Inr (), Finished, pool_terminate (pool_create initialWorld))"
    by (rule for_await_done)
       (simp add: processRecordsInParallel_def generator_next_def pagePull_end[OF nf sel])
  then have p: "loopRun (for_await (processRecordsInParallel identityEnv axbycSource ''t.js'' 0 1000)
              (insertRecords identityEnv) Fresh initialWorld)
     = Some (Inr (), pool_terminate (pool_create initialWorld))"
    by (simp add: loopRun_def)
  have t: "target (pool_terminate (pool_create initialWorld)) = []"
    by (simp add: pool_terminate_counters pool_create_counters initialWorld_def)
  have u: "outcome (loopRun (for_await (processRecordsInParallel identityEnv roundedUpSource ''t.js'' 1 1000)
                       (insertRecords identityEnv) Fresh initialWorld))
     = Some (Inr ()) \<and>
   written (loopRun (for_await (processRecordsInParallel identityEnv roundedUpSource ''t.js'' 1 1000)
                       (insertRecords identityEnv) Fresh initialWorld))
     = Some [(''a'', ''a'', Some HTML)]"
    using roundedUp_run by (auto simp: outcome_def written_def)
  have l: "length nullKindSource = 2" "length zeroRowidSource = 2" "length axbycSource = 5"
    "length roundedUpSource = 2"
    by (simp_all add: nullKindSource_def zeroRowidSource_def axbycSource_def roundedUpSource_def)
  from n z p t u l show ?thesis by simp
qed

text \<open>
  C1, amended. For a page size above 0 and any chunk size, on a source whose rowids are
  unique (as the rowids of a table are), positive and exact (read as JavaScript numbers of
  the same value, as every rowid up to \<open>2 ^ 53\<close> is), and whose records, in the
  \<open>htmlBeforeLink\<close> mode, are all of kind HTML or LINK: every run of the workflow that
  completes, in either mode and in any environment, has appended to the destination as many
  rows as the source holds, with the keys of the source, each as often as in the source.
\<close>

theorem record_count:
  assumes "0 < pageSize"
    and "uniqueRowids db" and "exactRowids db" and "positiveRowids db"
    and "optionsHtmlBeforeLink options \<longrightarrow> (\<forall>r \<in> set db. isHtml r \<or> isLink r)"
    and "runTransformWorkflowWith pageSize chunkSize env db modulePath options world
           = Some (Inr (), world')"
  shows "length (target world') = length (target world) + length db \<and>
         mset (map row_entry (target world'))
           = mset (map row_entry (target world)) + mset (map row_entry db)"
proof (cases "optionsHtmlBeforeLink options")
  case False
  from workflow_entries[OF assms(1,2,3,6)] False
  have e: "map row_entry (target world')
             = map row_entry (target world) @ map row_entry (sort_key row_id db)"
    by (simp add: pending_all[OF assms(4)] matchesType_simps)
  have "length (map row_entry (target world'))
          = length (map row_entry (target world) @ map row_entry (sort_key row_id db))"
    by (simp only: e)
  then have l: "length (target world') = length (target world) + length db" by simp
  have "mset (map row_entry (target world'))
             = mset (map row_entry (target world)) + mset (map row_entry (sort_key row_id db))"
    unfolding e by (simp only: mset_append)
  then have m: "mset (map row_entry (target world'))
             = mset (map row_entry (target world)) + mset (map row_entry db)"
    by (simp only: mset_entries_sorted)
  from l m show ?thesis by blast
next
  case True
  with assms(5) have cover: "\<forall>r \<in> set db. isHtml r \<or> isLink r" by blast
  from workflow_entries[OF assms(1,2,3,6)] True
  have e: "map row_entry (target world')
             = map row_entry (target world) @ map row_entry (sort_key row_id (filter isHtml db))
                 @ map row_entry (sort_key row_id (filter isLink db))"
    by (simp add: pending_all[OF assms(4)] matchesType_simps)
  have part: "length (filter isHtml db) + length (filter isLink db) = length db"
    unfolding html_link_cover[OF cover] by (rule sum_length_filter_compl)
  have "length (map row_entry (target world'))
          = length (map row_entry (target world) @ map row_entry (sort_key row_id (filter isHtml db))
                 @ map row_entry (sort_key row_id (filter isLink db)))"
    by (simp only: e)
  then have "length (target world')
          = length (target world) + (length (filter isHtml db) + length (filter isLink db))"
    by simp
  then have l: "length (target world') = length (target world) + length db"
    by (simp only: part)
  have "image_mset row_entry (filter_mset isHtml (mset db))
          + image_mset row_entry (filter_mset (\<lambda>r. \<not> isHtml r) (mset db))
          = image_mset row_entry (mset db)"
    by (metis image_mset_union multiset_partition)
  then have "mset (map row_entry (filter isHtml db)) + mset (map row_entry (filter isLink db))
          = mset (map row_entry db)"
    unfolding html_link_cover[OF cover] by simp
  then have m: "mset (map row_entry (target world'))
             = mset (map row_entry (target world)) + mset (map row_entry db)"
    unfolding e by (simp add: add.assoc)
  from l m show ?thesis by blast
qed

text \<open>The source a, x, b, y, c in pages of 2 and chunks of 1, in the \<open>htmlBeforeLink\<close> mode.\<close>

theorem record_count_witness:
  "\<exists>world'.
     runTransformWorkflowWith 2 1 identityEnv axbycSource ''t.js'' htmlBeforeLinkOptions initialWorld
       = Some (Inr (), world') \<and>
     length (target world') = 5 \<and>
     mset (map row_entry (target world')) = mset [''a'', ''x'', ''b'', ''y'', ''c'']"
proof -
  have p: "(0::nat) < 2" "(0::nat) < 1" by simp_all
  have o: "optionsHtmlBeforeLink htmlBeforeLinkOptions"
    by (simp add: optionsHtmlBeforeLink_def htmlBeforeLinkOptions_def)
  have c: "optionsHtmlBeforeLink htmlBeforeLinkOptions \<longrightarrow> (\<forall>r \<in> set axbycSource. isHtml r \<or> isLink r)"
    using axbycSource_props(5) by simp
  have "\<exists>world' sizes.
          runTransformWorkflowWith 2 1 identityEnv axbycSource ''t.js'' htmlBeforeLinkOptions initialWorld
            = Some (Inr (), world') \<and>
          contents (target world') =
            contents (target initialWorld)
              @ map (\<lambda>r. (row_entry r, (\<lambda>s. s) (row_paraphrase r), Some HTML))
                  (sort_key row_id (filter (\<lambda>r. isHtml r \<and> 0 < row_id r) axbycSource))
              @ map (\<lambda>r. (row_entry r, row_paraphrase r, Some LINK))
                  (sort_key row_id (filter isLink axbycSource)) \<and>
          insertSizes world' = insertSizes initialWorld @ sizes @ [length (filter isLink axbycSource)] \<and>
          sum_list sizes = length (filter (\<lambda>r. isHtml r \<and> 0 < row_id r) axbycSource)"
    by (rule workflow_htmlFirst[where f = Some and h = "\<lambda>s. s",
          OF p identityEnv_props(1) _ identityEnv_props(2,3) axbycSource_props(1)
             exactRowids_filter[OF axbycSource_props(2)] identityEnv_props(4) o])
       simp
  then obtain world' where run:
    "runTransformWorkflowWith 2 1 identityEnv axbycSource ''t.js'' htmlBeforeLinkOptions initialWorld
       = Some (Inr (), world')" by blast
  from record_count[OF p(1) axbycSource_props(1,2,3) c run]
  have "length (target world') = length (target initialWorld) + length axbycSource"
    "mset (map row_entry (target world'))
       = mset (map row_entry (target initialWorld)) + mset (map row_entry axbycSource)"
    by simp_all
  then have "length (target world') = 5"
    "mset (map row_entry (target world')) = mset [''a'', ''x'', ''b'', ''y'', ''c'']"
    by (simp_all add: initialWorld_def axbycSource_def mkRow_def)
  with run show ?thesis by blast
qed

text \<open>
  C2, as stated, fails. The generator pages from the watermark 0: in the source a (rowid 0),
  b (rowid 1), a precedes b, and the run completes having written b alone. The watermark is
  the rowid of the last record of a page, read as a JavaScript number: with the source x
  (rowid 1), a (rowid \<open>2 ^ 53 + 1\<close>, read as \<open>2 ^ 53\<close>), every page query after the first
  returns a again, and the run never returns.
\<close>

theorem interleaved_order_counterexample:
  "map row_entry zeroRowidSource = [''a'', ''b''] \<and>
   outcome (runTransformWorkflow identityEnv zeroRowidSource ''t.js'' None initialWorld)
     = Some (Inr ()) \<and>
   written (runTransformWorkflow identityEnv zeroRowidSource ''t.js'' None initialWorld)
     = Some [(''b'', ''b'', Some HTML)] \<and>
   runTransformWorkflow identityEnv roundedDownSource ''t.js'' None initialWorld = None"
proof -
  have "outcome (runTransformWorkflow identityEnv zeroRowidSource ''t.js'' None initialWorld)
          = Some (Inr ()) \<and>
        written (runTransformWorkflow identityEnv zeroRowidSource ''t.js'' None initialWorld)
          = Some [(''b'', ''b'', Some HTML)]"
    using zeroRowid_run by (auto simp: outcome_def written_def)
  moreover have "map row_entry zeroRowidSource = [''a'', ''b'']"
    by (simp add: zeroRowidSource_def mkRow_def)
  ultimately show ?thesis using roundedDown_runs(1) by simp
qed

text \<open>
  C2, amended. In the workflow without \<open>htmlBeforeLink\<close>, on a source whose rowids are
  unique, positive and exact (read as JavaScript numbers of the same value, as every rowid up
  to \<open>2 ^ 53\<close> is), with a module file that exists and exports a function returning on every
  HTML content, and with store operations that succeed: the run completes, and the rows it
  appends to the destination are the source rows in rowid order, one for one, each with its
  key and with its content transformed (HTML) or unchanged (any other kind). So a record that
  precedes another in the source is written before it. Each page is reassembled in place: the
  page handed to the writer holds at every position the record that the fetched page held
  there.
\<close>

theorem interleaved_order:
  assumes "existsSync env modulePath"
    and "files env (resolve env modulePath) = Exports f"
    and "\<forall>r \<in> set db. isHtml r \<longrightarrow> f (row_paraphrase r) = Some (h (row_paraphrase r))"
    and "\<forall>q. \<not> sourceFault env q" and "\<forall>n. \<not> targetFault env n"
    and "uniqueRowids db" and "exactRowids db" and "positiveRowids db"
    and "\<not> optionsHtmlBeforeLink options"
  shows "\<exists>world'.
           runTransformWorkflow env db modulePath options world = Some (Inr (), world') \<and>
           map row_entry (target world')
             = map row_entry (target world) @ map row_entry (sort_key row_id db) \<and>
           map row_paraphrase (target world')
             = map row_paraphrase (target world) @ map (interleavedContent h) (sort_key row_id db) \<and>
           (\<forall>records. set records \<subseteq> recordOfRow ` set db \<longrightarrow>
              (\<exists>world1. processPage env modulePath 1000 records (pool_create world)
                           = Some (Inr (map (reassembled h) records), world1)))"
proof -
  have p: "(0::nat) < 10000" "(0::nat) < 1000" by simp_all
  have all: "filter (\<lambda>r. 0 < row_id r) db = db"
    using assms(8) by (simp add: positiveRowids_def filter_id_conv)
  from workflow_interleaved[OF p assms(2,3,4,5,6,7,1,9), of world]
  obtain world' where r:
    "runTransformWorkflowWith 10000 1000 env db modulePath options world = Some (Inr (), world')"
    "contents (target world') =
             contents (target world)
               @ map (\<lambda>r. (row_entry r, interleavedContent h r,
                            Some (defaultContentType (recordOfRow r)))) (sort_key row_id db)"
    unfolding all by blast
  have a: "runTransformWorkflow env db modulePath options world = Some (Inr (), world')"
    using r(1) by (simp add: runTransformWorkflow_def)
  have "map fst (contents (target world')) =
          map fst (contents (target world)
               @ map (\<lambda>r. (row_entry r, interleavedContent h r,
                            Some (defaultContentType (recordOfRow r)))) (sort_key row_id db))"
    by (simp only: r(2))
  then have b: "map row_entry (target world')
             = map row_entry (target world) @ map row_entry (sort_key row_id db)"
    by (simp add: contents_entries comp_def)
  have "map (\<lambda>c. fst (snd c)) (contents (target world')) =
          map (\<lambda>c. fst (snd c)) (contents (target world)
               @ map (\<lambda>r. (row_entry r, interleavedContent h r,
                            Some (defaultContentType (recordOfRow r)))) (sort_key row_id db))"
    by (simp only: r(2))
  then have c: "map row_paraphrase (target world')
             = map row_paraphrase (target world) @ map (interleavedContent h) (sort_key row_id db)"
    by (simp add: contents_paraphrases comp_def)
  have d: "\<exists>world1. processPage env modulePath 1000 records (pool_create world)
                           = Some (Inr (map (reassembled h) records), world1)"
    if sub: "set records \<subseteq> recordOfRow ` set db" for records
  proof -
    have "\<forall>r \<in> set records. content_type r = Some HTML \<longrightarrow> f (paraphrase r) = Some (h (paraphrase r))"
    proof (intro ballI impI)
      fix r assume "r \<in> set records" and k: "content_type r = Some HTML"
      with sub obtain row where row: "row \<in> set db" "r = recordOfRow row" by blast
      with k have "isHtml row" by (simp add: recordOfRow_def isHtml_def)
      with assms(3) row(1) have "f (row_paraphrase row) = Some (h (row_paraphrase row))" by blast
      then show "f (paraphrase r) = Some (h (paraphrase r))" by (simp add: row(2) recordOfRow_def)
    qed
    from processPage_page[OF p(2) assms(2) this poolSound_create, of world]
    show ?thesis by blast
  qed
  from a b c d show ?thesis by blast
qed

text \<open>
  The source a, x, b, y, c (a, b, c HTML; x, y LINK) under the identity transform keeps its
  order.
\<close>

theorem interleaved_order_witness:
  "\<exists>world'.
     runTransformWorkflow identityEnv axbycSource ''t.js'' None initialWorld = Some (Inr (), world') \<and>
     map row_entry (target world') = [''a'', ''x'', ''b'', ''y'', ''c'']"
proof -
  have o: "\<not> optionsHtmlBeforeLink None" by (simp add: optionsHtmlBeforeLink_def)
  have "\<exists>world'.
           runTransformWorkflow identityEnv axbycSource ''t.js'' None initialWorld = Some (Inr (), world') \<and>
           map row_entry (target world')
             = map row_entry (target initialWorld) @ map row_entry (sort_key row_id axbycSource) \<and>
           map row_paraphrase (target world')
             = map row_paraphrase (target initialWorld)
                 @ map (interleavedContent (\<lambda>s. s)) (sort_key row_id axbycSource) \<and>
           (\<forall>records. set records \<subseteq> recordOfRow ` set axbycSource \<longrightarrow>
              (\<exists>world1. processPage identityEnv ''t.js'' 1000 records (pool_create initialWorld)
                           = Some (Inr (map (reassembled (\<lambda>s. s)) records), world1)))"
    by (rule interleaved_order[where f = Some and h = "\<lambda>s. s",
          OF identityEnv_props(4,1) _ identityEnv_props(2,3) axbycSource_props(1,2,3) o])
       simp
  then obtain world' where
    "runTransformWorkflow identityEnv axbycSource ''t.js'' None initialWorld = Some (Inr (), world')"
    "map row_entry (target world')
       = map row_entry (target initialWorld) @ map row_entry (sort_key row_id axbycSource)"
    by blast
  then show ?thesis
    by (simp add: axbycSource_props(4) initialWorld_def) (simp add: axbycSource_def mkRow_def)
qed

text \<open>
  C3, as stated, fails. The pass over the HTML records is paged by a watermark that is the
  rowid of the last record of a page, read as a JavaScript number. With the source x (LINK,
  rowid 1), a (HTML, rowid \<open>2 ^ 53 + 1\<close>, read as \<open>2 ^ 53\<close>), every page query returns a, the
  pass never ends, and the batch of the LINK records is never written.
\<close>

theorem html_before_link_order_counterexample:
  "filter isLink roundedDownSource = [mkRow 1 ''x'' ''@@@LINK=a'' LINK] \<and>
   runTransformWorkflow identityEnv roundedDownSource ''t.js'' htmlBeforeLinkOptions initialWorld
     = None"
  using roundedDown_runs(2)
  by (simp add: roundedDownSource_def mkRow_def isLink_def HTML_def LINK_def)

text \<open>
  C3, amended. In the workflow with \<open>htmlBeforeLink\<close>, on a source whose rowids are unique
  and whose HTML rows have exact rowids (read as JavaScript numbers of the same value, as
  every rowid up to \<open>2 ^ 53\<close> is), with a module file that exists and exports a function
  returning on every HTML content, and with store operations that succeed: the run
  completes, and the rows it appends to the destination are first the HTML rows of the
  source that have a positive rowid (the pass pages from the watermark 0), in rowid order,
  with their content transformed, then the LINK rows of the source in rowid order,
  unchanged. The LINK rows are the last batch written, and the batches before it hold the
  HTML rows.
\<close>

theorem html_before_link_order:
  assumes "existsSync env modulePath"
    and "files env (resolve env modulePath) = Exports f"
    and "\<forall>r \<in> set db. isHtml r \<longrightarrow> f (row_paraphrase r) = Some (h (row_paraphrase r))"
    and "\<forall>q. \<not> sourceFault env q" and "\<forall>n. \<not> targetFault env n"
    and "uniqueRowids db" and "exactRowids (filter isHtml db)"
    and "optionsHtmlBeforeLink options"
  shows "\<exists>world' sizes.
           runTransformWorkflow env db modulePath options world = Some (Inr (), world') \<and>
           contents (target world') =
             contents (target world)
               @ map (\<lambda>r. (row_entry r, h (row_paraphrase r), Some HTML))
                   (sort_key row_id (filter (\<lambda>r. isHtml r \<and> 0 < row_id r) db))
               @ map (\<lambda>r. (row_entry r, row_paraphrase r, Some LINK))
                   (sort_key row_id (filter isLink db)) \<and>
           insertSizes world' = insertSizes world @ sizes @ [length (filter isLink db)] \<and>
           sum_list sizes = length (filter (\<lambda>r. isHtml r \<and> 0 < row_id r) db)"
proof -
  have p: "(0::nat) < 10000" "(0::nat) < 1000" by simp_all
  from workflow_htmlFirst[OF p assms(2,3,4,5,6,7,1,8), of world]
  show ?thesis by (simp only: runTransformWorkflow_def)
qed

text \<open>The source a, x, b, y, c under the identity transform is written as a, b, c, x, y.\<close>

theorem html_before_link_order_witness:
  "\<exists>world'.
     runTransformWorkflow identityEnv axbycSource ''t.js'' htmlBeforeLinkOptions initialWorld
       = Some (Inr (), world') \<and>
     contents (target world') =
       [(''a'', ''a'', Some HTML), (''b'', ''b'', Some HTML), (''c'', ''c'', Some HTML),
        (''x'', ''@@@LINK=a'', Some LINK), (''y'', ''@@@LINK=b'', Some LINK)] \<and>
     last (insertSizes world') = 2"
proof -
  have o: "optionsHtmlBeforeLink htmlBeforeLinkOptions"
    by (simp add: optionsHtmlBeforeLink_def htmlBeforeLinkOptions_def)
  have "\<exists>world' sizes.
           runTransformWorkflow identityEnv axbycSource ''t.js'' htmlBeforeLinkOptions initialWorld
             = Some (Inr (), world') \<and>
           contents (target world') =
             contents (target initialWorld)
               @ map (\<lambda>r. (row_entry r, (\<lambda>s. s) (row_paraphrase r), Some HTML))
                   (sort_key row_id (filter (\<lambda>r. isHtml r \<and> 0 < row_id r) axbycSource))
               @ map (\<lambda>r. (row_entry r, row_paraphrase r, Some LINK))
                   (sort_key row_id (filter isLink axbycSource)) \<and>
           insertSizes world' = insertSizes initialWorld @ sizes @ [length (filter isLink axbycSource)] \<and>
           sum_list sizes = length (filter (\<lambda>r. isHtml r \<and> 0 < row_id r) axbycSource)"
    by (rule html_before_link_order[where f = Some and h = "\<lambda>s. s",
          OF identityEnv_props(4,1) _ identityEnv_props(2,3) axbycSource_props(1)
             exactRowids_filter[OF axbycSource_props(2)] o])
       simp
  then obtain world' sizes where r:
    "runTransformWorkflow identityEnv axbycSource ''t.js'' htmlBeforeLinkOptions initialWorld
       = Some (Inr (), world')"
    "contents (target world') =
             contents (target initialWorld)
               @ map (\<lambda>r. (row_entry r, (\<lambda>s. s) (row_paraphrase r), Some HTML))
                   (sort_key row_id (filter (\<lambda>r. isHtml r \<and> 0 < row_id r) axbycSource))
               @ map (\<lambda>r. (row_entry r, row_paraphrase r, Some LINK))
                   (sort_key row_id (filter isLink axbycSource))"
    "insertSizes world' = insertSizes initialWorld @ sizes @ [length (filter isLink axbycSource)]"
    by blast
  have c: "contents (target world') =
       [(''a'', ''a'', Some HTML), (''b'', ''b'', Some HTML), (''c'', ''c'', Some HTML),
        (''x'', ''@@@LINK=a'', Some LINK), (''y'', ''@@@LINK=b'', Some LINK)]"
    unfolding r(2)
    by (simp add: initialWorld_def contents_def axbycSource_def mkRow_def isHtml_def isLink_def
          HTML_def LINK_def)
  have l: "last (insertSizes world') = 2"
    unfolding r(3) axbycSource_props(7) by simp
  from r(1) c l show ?thesis by blast
qed

text \<open>
  C4. For a chunk size above 0, a module that exports \<open>f\<close>, and a function \<open>f\<close> that returns
  on every record's content, the chunk scheduler splits the input into consecutive non-empty
  chunks of at most \<open>chunkSize\<close> records whose concatenation is the input, hands every chunk
  to the pool (one dispatch per chunk), and returns the transformed records in input order
  and of the same number.
\<close>

theorem chunk_scheduler:
  assumes "0 < chunkSize"
    and "files env (resolve env modulePath) = Exports f"
    and "\<forall>r \<in> set htmlRecords. f (paraphrase r) = Some (h (paraphrase r))"
    and "\<forall>w. cacheSound env (workers world w)"
  shows "\<exists>chunks world'.
           chunkLoop htmlRecords chunkSize 0 [] = Some chunks \<and>
           concat chunks = htmlRecords \<and>
           (\<forall>c \<in> set chunks. c \<noteq> [] \<and> length c \<le> chunkSize) \<and>
           transformHtmlRecordsInParallel env htmlRecords modulePath chunkSize world =
             Some (Inr (map (transformed h) htmlRecords), world') \<and>
           dispatched world' = dispatched world + length chunks \<and>
           length (map (transformed h) htmlRecords) = length htmlRecords"
proof -
  from transformHtmlRecordsInParallel_ok[OF assms]
  obtain chunks where c: "chunkLoop htmlRecords chunkSize 0 [] = Some chunks"
    "concat chunks = htmlRecords" "\<forall>c \<in> set chunks. c \<noteq> [] \<and> length c \<le> chunkSize"
    "transformHtmlRecordsInParallel env htmlRecords modulePath chunkSize world =
             Some (Inr (map (transformed h) htmlRecords),
                   snd (execChunks env (resolve env modulePath) chunks world))"
    by blast
  have "dispatched (snd (execChunks env (resolve env modulePath) chunks world))
          = dispatched world + length chunks"
    by (rule execChunks_frame)
  with c show ?thesis by auto
qed

text \<open>Upper-casing ab, cd, ef in chunks of size 1 over a pool of two workers.\<close>

theorem chunk_scheduler_witness:
  "0 < (1::nat) \<and>
   files upperEnv (resolve upperEnv ''t.js'') = Exports (\<lambda>s. Some (toUpperCase s)) \<and>
   (\<exists>world'.
      transformHtmlRecordsInParallel upperEnv
        [htmlRecord 1 ''k1'' ''ab'', htmlRecord 2 ''k2'' ''cd'', htmlRecord 3 ''k3'' ''ef'']
        ''t.js'' 1 (pool_create initialWorld)
      = Some (Inr [htmlRecord 1 ''k1'' ''AB'', htmlRecord 2 ''k2'' ''CD'', htmlRecord 3 ''k3'' ''EF''],
              world')
      \<and> dispatched world' = 3)"
proof -
  have a: "0 < (1::nat)" by simp
  have b: "files upperEnv (resolve upperEnv ''t.js'') = Exports (\<lambda>s. Some (toUpperCase s))"
    by (simp add: upperEnv_def)
  have c: "\<forall>r \<in> set [htmlRecord 1 ''k1'' ''ab'', htmlRecord 2 ''k2'' ''cd'', htmlRecord 3 ''k3'' ''ef''].
             (\<lambda>s. Some (toUpperCase s)) (paraphrase r) = Some (toUpperCase (paraphrase r))"
    by simp
  have d: "\<forall>w. cacheSound upperEnv (workers (pool_create initialWorld) w)"
    by (simp add: pool_create_def cacheSound_def freshGlobals_def)
  have e: "map (transformed toUpperCase)
             [htmlRecord 1 ''k1'' ''ab'', htmlRecord 2 ''k2'' ''cd'', htmlRecord 3 ''k3'' ''ef'']
           = [htmlRecord 1 ''k1'' ''AB'', htmlRecord 2 ''k2'' ''CD'', htmlRecord 3 ''k3'' ''EF'']"
    by (simp add: transformed_def htmlRecord_def toUpperCase_example)
  from chunk_scheduler[OF a b c d]
  obtain chunks world' where r:
    "concat chunks = [htmlRecord 1 ''k1'' ''ab'', htmlRecord 2 ''k2'' ''cd'', htmlRecord 3 ''k3'' ''ef'']"
    "\<forall>c \<in> set chunks. c \<noteq> [] \<and> length c \<le> 1"
    "transformHtmlRecordsInParallel upperEnv
        [htmlRecord 1 ''k1'' ''ab'', htmlRecord 2 ''k2'' ''cd'', htmlRecord 3 ''k3'' ''ef'']
        ''t.js'' 1 (pool_create initialWorld)
      = Some (Inr (map (transformed toUpperCase)
             [htmlRecord 1 ''k1'' ''ab'', htmlRecord 2 ''k2'' ''cd'', htmlRecord 3 ''k3'' ''ef'']), world')"
    "dispatched world' = dispatched (pool_create initialWorld) + length chunks"
    by blast
  have "\<forall>c \<in> set chunks. length c = 1" using r(2) by (auto simp: le_Suc_eq)
  then have "length (concat chunks) = length chunks"
    by (induction chunks) auto
  with r(1) have "length chunks = 3" by simp
  with r(4) have "dispatched world' = 3" by (simp add: pool_create_def initialWorld_def)
  with r(3) e a b show ?thesis by auto
qed



text \<open>
  C6, as stated, fails on three counts. Over an empty source the workflow with
  \<open>htmlBeforeLink\<close> completes with one write to the destination: after the pass over the HTML
  records it commits the batch of the LINK records, which is empty. A record is returned
  with its rowid read as a JavaScript number: at the watermark \<open>2 ^ 53\<close> the cursor returns
  the row at rowid \<open>2 ^ 53 + 1\<close> as a record whose rowid is \<open>2 ^ 53\<close>, not greater than the
  watermark. With a page size of 0 the cursor reports the end of the stream although five
  records lie above the watermark.
\<close>

theorem page_cursor_counterexample:
  "outcome (runTransformWorkflow identityEnv [] ''t.js'' htmlBeforeLinkOptions initialWorld)
     = Some (Inr ()) \<and>
   batches (runTransformWorkflow identityEnv [] ''t.js'' htmlBeforeLinkOptions initialWorld)
     = Some [0] \<and>
   fetchRecordsPaginated roundedDownSource None 10000 (Some 9007199254740992)
     = Some [\<lparr>entry = ''a'', paraphrase = ''a'', content_type = Some HTML,
              rowid = Some 9007199254740992\<rparr>] \<and>
   length (filter (aboveWatermark (Some 0)) axbycSource) = 5 \<and>
   fetchRecordsPaginated axbycSource None 0 (Some 0) = None"
proof -
  have t: "\<not> targetFault identityEnv (length (target initialWorld))"
    by (simp add: identityEnv_def)
  from empty_source_run[where env = identityEnv and modulePath = "''t.js''" and world = initialWorld
      and pageSize = 10000 and chunkSize = 1000 and options = htmlBeforeLinkOptions,
      OF identityEnv_props(4,2) t]
  obtain world' where
    "runTransformWorkflowWith 10000 1000 identityEnv [] ''t.js'' htmlBeforeLinkOptions initialWorld
       = Some (Inr (), world')"
    "insertSizes world' = insertSizes initialWorld
       @ (if optionsHtmlBeforeLink htmlBeforeLinkOptions then [0] else [])"
    by blast
  then have a: "outcome (runTransformWorkflow identityEnv [] ''t.js'' htmlBeforeLinkOptions initialWorld)
     = Some (Inr ()) \<and>
   batches (runTransformWorkflow identityEnv [] ''t.js'' htmlBeforeLinkOptions initialWorld)
     = Some [0]"
    by (simp add: runTransformWorkflow_def outcome_def batches_def initialWorld_def
          optionsHtmlBeforeLink_def htmlBeforeLinkOptions_def)
  have b: "fetchRecordsPaginated roundedDownSource None 10000 (Some 9007199254740992)
     = Some [\<lparr>entry = ''a'', paraphrase = ''a'', content_type = Some HTML,
              rowid = Some 9007199254740992\<rparr>]"
    by (simp add: roundedDown_pages(3)) (simp add: recordOfRow_def mkRow_def toNumber_examples)
  have c: "length (filter (aboveWatermark (Some 0)) axbycSource) = 5"
    by (simp add: axbycSource_def mkRow_def)
  have d: "fetchRecordsPaginated axbycSource None 0 (Some 0) = None"
    by (simp add: fetchRecordsPaginated_def selectPage_def)
  from a b c d show ?thesis by simp
qed

text \<open>
  C6, amended. For every watermark, the cursor has still to deliver the rows of the
  requested kind whose rowid lies above the watermark (none when the watermark is NULL), in
  ascending rowid order. A call with a page size above 0 returns the first \<open>pageSize\<close> of
  them, or all of them when fewer are left, as one non-empty page; it reports the end of the
  stream exactly when none is left or the page size is 0. The records of a page carry the
  rowids of their rows read as JavaScript numbers, which lie above the watermark when the
  rowids are exact. Over an empty source the cursor is done at its first call, and a run
  whose module file exists and whose store operations succeed completes with no row written
  and nothing dispatched; without \<open>htmlBeforeLink\<close> it commits no batch, with
  \<open>htmlBeforeLink\<close> it commits one batch, the empty batch of the LINK records.
\<close>

theorem page_cursor:
  "fetchRecordsPaginated db contentType pageSize lastRowId =
     (if pageSize = 0 \<or> pending db contentType lastRowId = [] then None
      else Some (map recordOfRow (take pageSize (pending db contentType lastRowId)))) \<and>
   pending db contentType lastRowId =
     sort_key row_id (filter (\<lambda>r. matchesType contentType r \<and> aboveWatermark lastRowId r) db) \<and>
   (\<exists>rows. selectPage db contentType lastRowId pageSize = map recordOfRow rows \<and>
       length rows \<le> pageSize \<and> sorted (map row_id rows) \<and>
       (\<forall>r \<in> set rows. r \<in> set db \<and> matchesType contentType r \<and> aboveWatermark lastRowId r)) \<and>
   (0 < pageSize \<and> (\<exists>r \<in> set db. matchesType contentType r \<and> aboveWatermark lastRowId r) \<longrightarrow>
      (\<exists>page. fetchRecordsPaginated db contentType pageSize lastRowId = Some page \<and>
              page = selectPage db contentType lastRowId pageSize \<and>
              length page =
                min pageSize
                  (length (filter (\<lambda>r. matchesType contentType r \<and> aboveWatermark lastRowId r) db)) \<and>
              page \<noteq> [])) \<and>
   ((\<forall>r \<in> set db. matchesType contentType r \<longrightarrow> \<not> aboveWatermark lastRowId r) \<longrightarrow>
      fetchRecordsPaginated db contentType pageSize lastRowId = None) \<and>
   (exactRowids db \<longrightarrow>
      (\<forall>record \<in> set (selectPage db contentType (Some w) pageSize).
         \<exists>n. rowid record = Some n \<and> w < n)) \<and>
   fetchRecordsPaginated [] contentType pageSize (Some 0) = None \<and>
   (existsSync env modulePath \<and> (\<forall>q. \<not> sourceFault env q) \<and>
    \<not> targetFault env (length (target world)) \<longrightarrow>
      (\<exists>world'. runTransformWorkflowWith pageSize chunkSize env [] modulePath options world
                     = Some (Inr (), world') \<and>
                 target world' = target world \<and> dispatched world' = dispatched world \<and>
                 insertSizes world' =
                   insertSizes world @ (if optionsHtmlBeforeLink options then [0] else [])))"
proof -
  let ?above = "filter (\<lambda>r. matchesType contentType r \<and> aboveWatermark lastRowId r) db"
  have a: "fetchRecordsPaginated db contentType pageSize lastRowId =
     (if pageSize = 0 \<or> pending db contentType lastRowId = [] then None
      else Some (map recordOfRow (take pageSize (pending db contentType lastRowId))))"
    by (rule fetchRecordsPaginated_pending)
  have b: "pending db contentType lastRowId = sort_key row_id ?above"
    by (rule pending_filter)
  have c: "\<exists>page. fetchRecordsPaginated db contentType pageSize lastRowId = Some page \<and>
              page = selectPage db contentType lastRowId pageSize \<and>
              length page = min pageSize (length ?above) \<and> page \<noteq> []"
    if "0 < pageSize \<and> (\<exists>r \<in> set db. matchesType contentType r \<and> aboveWatermark lastRowId r)"
  proof -
    from that have "?above \<noteq> []" by (auto simp: filter_empty_conv)
    then have ne: "pending db contentType lastRowId \<noteq> []"
      unfolding b by (metis length_sort length_0_conv)
    have l: "length (pending db contentType lastRowId) = length ?above" unfolding b by simp
    have "fetchRecordsPaginated db contentType pageSize lastRowId
            = Some (selectPage db contentType lastRowId pageSize)"
      using that ne by (simp add: a selectPage_pending)
    moreover have "length (selectPage db contentType lastRowId pageSize) = min pageSize (length ?above)"
      by (simp add: selectPage_pending l min.commute)
    moreover have "selectPage db contentType lastRowId pageSize \<noteq> []"
      using that ne by (simp add: selectPage_pending)
    ultimately show ?thesis by blast
  qed
  have d: "fetchRecordsPaginated db contentType pageSize lastRowId = None"
    if "\<forall>r \<in> set db. matchesType contentType r \<longrightarrow> \<not> aboveWatermark lastRowId r"
  proof -
    from that have "?above = []" by (auto simp: filter_empty_conv)
    then show ?thesis by (simp add: a b)
  qed
  have e: "\<forall>record \<in> set (selectPage db contentType (Some w) pageSize).
         \<exists>n. rowid record = Some n \<and> w < n" if ex: "exactRowids db"
  proof
    fix x assume "x \<in> set (selectPage db contentType (Some w) pageSize)"
    with selectPage_rows[of db contentType "Some w" pageSize]
    obtain r where r: "x = recordOfRow r" "r \<in> set db" "w < row_id r" by auto
    with ex have "toNumber (row_id r) = row_id r" by (simp add: exactRowids_def)
    with r show "\<exists>n. rowid x = Some n \<and> w < n" by (simp add: recordOfRow_def)
  qed
  have f: "fetchRecordsPaginated [] contentType pageSize (Some 0) = None"
    by (simp add: fetchRecordsPaginated_def selectPage_def)
  have g: "\<exists>world'. runTransformWorkflowWith pageSize chunkSize env [] modulePath options world
                     = Some (Inr (), world') \<and>
                 target world' = target world \<and> dispatched world' = dispatched world \<and>
                 insertSizes world' =
                   insertSizes world @ (if optionsHtmlBeforeLink options then [0] else [])"
    if "existsSync env modulePath \<and> (\<forall>q. \<not> sourceFault env q) \<and>
        \<not> targetFault env (length (target world))"
    using that by (intro empty_source_run) simp_all
  from a b selectPage_rows[of db contentType lastRowId pageSize] c d e f g
  show ?thesis by (intro conjI impI) blast+
qed

text \<open>
  The source a, x, b, y, c in pages of 2: the page above the watermark 1 is x, b; above the
  watermark 5 the stream has ended. A run over the empty source.
\<close>

theorem page_cursor_witness:
  "fetchRecordsPaginated axbycSource None 2 (Some 1)
     = Some [recordOfRow (mkRow 2 ''x'' ''@@@LINK=a'' LINK), recordOfRow (mkRow 3 ''b'' ''b'' HTML)] \<and>
   map rowid (selectPage axbycSource None (Some 1) 2) = [Some 2, Some 3] \<and>
   fetchRecordsPaginated axbycSource None 2 (Some 5) = None \<and>
   (\<exists>world'. runTransformWorkflowWith 10 2 upperEnv [] ''t.js'' None initialWorld = Some (Inr (), world') \<and>
              target world' = [] \<and> dispatched world' = 0 \<and> insertSizes world' = [])"
proof -
  note t1 = page_cursor[of axbycSource None 2 "Some 1" 1 upperEnv "''t.js''" initialWorld 2 None]
  note t2 = page_cursor[of axbycSource None 2 "Some 5" 1 upperEnv "''t.js''" initialWorld 2 None]
  have h1: "0 < (2::nat) \<and> (\<exists>r \<in> set axbycSource. matchesType None r \<and> aboveWatermark (Some 1) r)"
    by (simp add: axbycSource_def mkRow_def matchesType_def)
  have sel: "selectPage axbycSource None (Some 1) 2
               = [recordOfRow (mkRow 2 ''x'' ''@@@LINK=a'' LINK), recordOfRow (mkRow 3 ''b'' ''b'' HTML)]"
    by (simp add: selectPage_def axbycSource_def mkRow_def matchesType_def)
  from t1 h1 have a: "fetchRecordsPaginated axbycSource None 2 (Some 1)
     = Some [recordOfRow (mkRow 2 ''x'' ''@@@LINK=a'' LINK), recordOfRow (mkRow 3 ''b'' ''b'' HTML)]"
    unfolding sel by blast
  from t1 axbycSource_props(2)
  have "\<forall>record \<in> set (selectPage axbycSource None (Some 1) 2). \<exists>n. rowid record = Some n \<and> 1 < n"
    by blast
  have b: "map rowid (selectPage axbycSource None (Some 1) 2) = [Some 2, Some 3]"
    unfolding sel by (simp add: recordOfRow_def mkRow_def toNumber_exact)
  have h2: "\<forall>r \<in> set axbycSource. matchesType None r \<longrightarrow> \<not> aboveWatermark (Some 5) r"
    by (simp add: axbycSource_def mkRow_def)
  from t2 h2 have c: "fetchRecordsPaginated axbycSource None 2 (Some 5) = None" by blast
  have h3: "existsSync upperEnv ''t.js'' \<and> (\<forall>q. \<not> sourceFault upperEnv q) \<and>
            \<not> targetFault upperEnv (length (target initialWorld))"
    by (simp add: upperEnv_def)
  from page_cursor[of "[]" None 10 "Some 0" 0 upperEnv "''t.js''" initialWorld 2 None] h3
  obtain world' where
    "runTransformWorkflowWith 10 2 upperEnv [] ''t.js'' None initialWorld = Some (Inr (), world')"
    "target world' = target initialWorld" "dispatched world' = dispatched initialWorld"
    "insertSizes world' = insertSizes initialWorld @ (if optionsHtmlBeforeLink None then [0] else [])"
    by blast
  then have d: "\<exists>world'. runTransformWorkflowWith 10 2 upperEnv [] ''t.js'' None initialWorld
                  = Some (Inr (), world') \<and>
              target world' = [] \<and> dispatched world' = 0 \<and> insertSizes world' = []"
    by (simp add: initialWorld_def optionsHtmlBeforeLink_def)
  from a b c d show ?thesis by blast
qed

text \<open>
  C7, as stated, fails for a malformed module: \<open>validateModuleExists\<close> only looks for the
  file, and the export is checked by the worker. With a module whose export is not a function
  and a source of one HTML row the run aborts with the load error, but only after it has
  dispatched the row to the pool.
\<close>

theorem load_error_after_dispatch_counterexample:
  "runTransformWorkflow wrongShapeEnv [mkRow 1 ''a'' ''<p>a</p>'' HTML] ''t.js'' None initialWorld
     = Some (Inl ExportShapeError,
             pool_terminate (snd (pool_exec wrongShapeEnv
               [recordOfRow (mkRow 1 ''a'' ''<p>a</p>'' HTML)] ''t.js'' (pool_create initialWorld)))) \<and>
   dispatched (pool_terminate (snd (pool_exec wrongShapeEnv
               [recordOfRow (mkRow 1 ''a'' ''<p>a</p>'' HTML)] ''t.js'' (pool_create initialWorld)))) = 1"
proof -
  let ?rec = "recordOfRow (mkRow 1 ''a'' ''<p>a</p>'' HTML)"
  let ?db = "[mkRow 1 ''a'' ''<p>a</p>'' HTML]"
  let ?w0 = "pool_create initialWorld"
  let ?w1 = "snd (pool_exec wrongShapeEnv [?rec] ''t.js'' ?w0)"
  let ?body = "processPage wrongShapeEnv ''t.js'' 1000"
  have m: "files wrongShapeEnv ''t.js'' = WrongShape"
    "WrongShape = NotFound \<or> WrongShape = ImportFails \<or> WrongShape = WrongShape"
    by (simp_all add: wrongShapeEnv_def)
  have res: "resolve wrongShapeEnv ''t.js'' = ''t.js''" by (simp add: wrongShapeEnv_def)
  have ex: "existsSync wrongShapeEnv ''t.js''" by (simp add: wrongShapeEnv_def)
  have nf: "\<not> sourceFault wrongShapeEnv q" for q by (simp add: wrongShapeEnv_def)
  have e: "fst (pool_exec wrongShapeEnv [?rec] ''t.js'' ?w0) = Inl ExportShapeError"
    using pool_exec_unloadable[OF m poolSound_create, of "[?rec]" initialWorld]
    by (simp add: loadError_def)
  have chunks: "chunkLoop [?rec] 1000 0 [] = Some [[?rec]]"
    by (simp add: chunkLoop_step chunkLoop_stop)
  have static: "transformHtmlRecordsInParallel wrongShapeEnv [?rec] ''t.js'' 1000 ?w0
                  = Some (Inl ExportShapeError, ?w1)"
    by (simp add: transformHtmlRecordsInParallel_def chunks res split_beta e)
  have refs: "htmlRefs [?rec] = [0]"
    by (simp add: htmlRefs_def recordOfRow_def mkRow_def)
  have page: "?body [?rec] ?w0 = Some (Inl ExportShapeError, ?w1)"
    by (simp add: processPage_def refs static)
  have fetch: "fetchRecordsPaginated ?db None 10000 (Some 0) = Some [?rec]"
    by (simp add: fetchRecordsPaginated_def selectPage_def matchesType_def mkRow_def)
  have "pagePull wrongShapeEnv ?db None 10000 ?body (Some 0) ?w0
          = Some (Inl ExportShapeError, Finished, pool_terminate ?w1)"
    using nf by (simp add: pagePull_def fetch page)
  then have "for_await (processRecordsInParallel wrongShapeEnv ?db ''t.js'' 10000 1000)
               (insertRecords wrongShapeEnv) Fresh initialWorld
             = Some (Inl ExportShapeError, Finished, pool_terminate ?w1)"
    unfolding processRecordsInParallel_def
    by (intro for_await_error) (simp add: generator_next_simps)
  then have run: "runTransformWorkflow wrongShapeEnv ?db ''t.js'' None initialWorld
     = Some (Inl ExportShapeError, pool_terminate ?w1)"
    by (simp add: runTransformWorkflow_def runTransformWorkflowWith_def
          validateModuleExists_ok[OF ex] getTotalRecordCount_ok[OF nf] optionsHtmlBeforeLink_def)
  have "dispatched (pool_terminate ?w1) = 1"
    by (simp add: pool_terminate_counters pool_exec_frame pool_create_counters initialWorld_def)
  with run show ?thesis by simp
qed

text \<open>
  C7, amended. A module file that \<^verbatim>\<open>fs.existsSync\<close> does not find at the path as given is
  fatal before anything else happens: the run aborts in \<open>validateModuleExists\<close>, with no pool
  created and nothing dispatched. A module file that exists but cannot be imported, or whose
  export is not a function, is found out by the worker: every dispatch to a pool with sound
  caches fails with the load error; and when the statements on the source and the inserts
  into the destination succeed, the rowids of the source are unique and exact (read as
  JavaScript numbers of the same value, as every rowid up to \<open>2 ^ 53\<close> is), and the source
  holds an HTML record with a positive rowid, the run aborts with that error after at least
  one dispatch.
\<close>

theorem load_errors:
  "(\<not> existsSync env modulePath \<longrightarrow>
      runTransformWorkflow env db modulePath options world = Some (Inl ModuleNotFound, world)) \<and>
   ((files env p = NotFound \<or> files env p = ImportFails \<or> files env p = WrongShape) \<and>
    poolSound env world \<longrightarrow>
      fst (pool_exec env chunk p world) = Inl (loadError (files env p))) \<and>
   (existsSync env modulePath \<and>
    (files env (resolve env modulePath) = NotFound \<or>
     files env (resolve env modulePath) = ImportFails \<or>
     files env (resolve env modulePath) = WrongShape) \<and>
    (\<forall>q. \<not> sourceFault env q) \<and> (\<forall>n. \<not> targetFault env n) \<and>
    uniqueRowids db \<and> exactRowids db \<and> (\<exists>r \<in> set db. isHtml r \<and> 0 < row_id r) \<longrightarrow>
      (\<exists>world'. runTransformWorkflow env db modulePath options world
                   = Some (Inl (loadError (files env (resolve env modulePath))), world') \<and>
                 dispatched world < dispatched world'))"
proof (intro conjI impI)
  assume "\<not> existsSync env modulePath"
  then show "runTransformWorkflow env db modulePath options world = Some (Inl ModuleNotFound, world)"
    by (simp add: runTransformWorkflow_def runTransformWorkflowWith_def validateModuleExists_def)
next
  assume a: "(files env p = NotFound \<or> files env p = ImportFails \<or> files env p = WrongShape) \<and>
    poolSound env world"
  show "fst (pool_exec env chunk p world) = Inl (loadError (files env p))"
    by (rule pool_exec_unloadable[OF refl]) (use a in blast)+
next
  assume a: "existsSync env modulePath \<and>
    (files env (resolve env modulePath) = NotFound \<or>
     files env (resolve env modulePath) = ImportFails \<or>
     files env (resolve env modulePath) = WrongShape) \<and>
    (\<forall>q. \<not> sourceFault env q) \<and> (\<forall>n. \<not> targetFault env n) \<and>
    uniqueRowids db \<and> exactRowids db \<and> (\<exists>r \<in> set db. isHtml r \<and> 0 < row_id r)"
  have p: "(0::nat) < 10000" "(0::nat) < 1000" by simp_all
  have "\<exists>world'. runTransformWorkflowWith 10000 1000 env db modulePath options world
                   = Some (Inl (loadError (files env (resolve env modulePath))), world') \<and>
                 dispatched world < dispatched world'"
    by (rule workflow_unloadable[OF p _ refl]) (use a in blast)+
  then show "\<exists>world'. runTransformWorkflow env db modulePath options world
                   = Some (Inl (loadError (files env (resolve env modulePath))), world') \<and>
                 dispatched world < dispatched world'"
    by (simp only: runTransformWorkflow_def)
qed

text \<open>
  The source a, x, b, y, c with no module file, and with a module whose export is not a
  function.
\<close>

theorem load_errors_witness:
  "runTransformWorkflow noModuleEnv axbycSource ''t.js'' None initialWorld
     = Some (Inl ModuleNotFound, initialWorld) \<and>
   fst (pool_exec wrongShapeEnv [] ''t.js'' initialWorld) = Inl ExportShapeError \<and>
   (\<exists>world'. runTransformWorkflow wrongShapeEnv axbycSource ''t.js'' None initialWorld
                = Some (Inl ExportShapeError, world') \<and>
              0 < dispatched world')"
proof -
  have a: "\<not> existsSync noModuleEnv ''t.js''"
    by (simp add: noModuleEnv_def)
  have s: "poolSound wrongShapeEnv initialWorld"
    by (simp add: poolSound_def cacheSound_def initialWorld_def freshGlobals_def)
  have b1: "(files wrongShapeEnv ''t.js'' = NotFound \<or> files wrongShapeEnv ''t.js'' = ImportFails \<or>
             files wrongShapeEnv ''t.js'' = WrongShape) \<and> poolSound wrongShapeEnv initialWorld"
    using s by (simp add: wrongShapeEnv_def)
  have b: "existsSync wrongShapeEnv ''t.js'' \<and>
    (files wrongShapeEnv (resolve wrongShapeEnv ''t.js'') = NotFound \<or>
     files wrongShapeEnv (resolve wrongShapeEnv ''t.js'') = ImportFails \<or>
     files wrongShapeEnv (resolve wrongShapeEnv ''t.js'') = WrongShape) \<and>
    (\<forall>q. \<not> sourceFault wrongShapeEnv q) \<and> (\<forall>n. \<not> targetFault wrongShapeEnv n) \<and>
    uniqueRowids axbycSource \<and> exactRowids axbycSource \<and>
    (\<exists>r \<in> set axbycSource. isHtml r \<and> 0 < row_id r)"
    using axbycSource_props(1,2)
    by (simp add: wrongShapeEnv_def) (simp add: axbycSource_def mkRow_def isHtml_def)
  have c: "loadError (files wrongShapeEnv (resolve wrongShapeEnv ''t.js'')) = ExportShapeError"
    "loadError (files wrongShapeEnv ''t.js'') = ExportShapeError"
    by (simp_all add: wrongShapeEnv_def loadError_def)
  note t1 = load_errors[of noModuleEnv "''t.js''" axbycSource None initialWorld "''t.js''" "[]"]
  note t2 = load_errors[of wrongShapeEnv "''t.js''" axbycSource None initialWorld "''t.js''" "[]"]
  from t1 a
  have 1: "runTransformWorkflow noModuleEnv axbycSource ''t.js'' None initialWorld
     = Some (Inl ModuleNotFound, initialWorld)" by blast
  from t2 b1 have 2: "fst (pool_exec wrongShapeEnv [] ''t.js'' initialWorld) = Inl ExportShapeError"
    unfolding c by blast
  from t2 b
  obtain world' where "runTransformWorkflow wrongShapeEnv axbycSource ''t.js'' None initialWorld
                = Some (Inl (loadError (files wrongShapeEnv (resolve wrongShapeEnv ''t.js''))), world')"
    "dispatched initialWorld < dispatched world'" by blast
  then have 3: "\<exists>world'. runTransformWorkflow wrongShapeEnv axbycSource ''t.js'' None initialWorld
                = Some (Inl ExportShapeError, world') \<and> 0 < dispatched world'"
    unfolding c by (auto simp: initialWorld_def)
  from 1 2 3 show ?thesis by blast
qed

text \<open>
  C8. A dispatch carrying a path that the context has not cached, and whose module exports a
  function, imports the module once and stores the function and the path in the context's
  cache. From then on every dispatch carrying the same path leaves the context as it is (no
  import) and applies the cached function. A pool only ever receives dispatches that carry
  the one path of its generator: every context of a new pool is empty; whatever chunks are
  dispatched with that path to a pool whose contexts are empty or hold the function after
  one import, every context is again empty or holds the function after one import; and when
  the loop of the workflow over either generator is left, every context of the pool is
  empty or holds the function after one import.
\<close>

theorem worker_cache:
  assumes "files env modulePath = Exports f"
  shows "(transformHtml g = None \<or> transformModulePath g \<noteq> Some modulePath \<longrightarrow>
            (\<exists>g1. transformHtmlRecords env records modulePath g = (settle f records, g1) \<and>
                   importLog g1 = importLog g @ [modulePath] \<and>
                   transformHtml g1 = Some f \<and>
                   transformModulePath g1 = Some modulePath \<and>
                   (\<forall>records'. transformHtmlRecords env records' modulePath g1
                                  = (settle f records', g1)))) \<and>
         (\<forall>w. cachedOnce modulePath f (workers (pool_create world) w)) \<and>
         ((\<forall>w. cachedOnce modulePath f (workers world w)) \<longrightarrow>
            (\<forall>w. cachedOnce modulePath f
                    (workers (snd (execChunks env modulePath chunks world)) w))) \<and>
         (resolve env givenPath = modulePath \<and>
          (gen = processRecordsInParallel env db givenPath pageSize chunkSize \<or>
           gen = transformHtmlRecordsInParallel_gen env db givenPath pageSize chunkSize) \<longrightarrow>
            (\<forall>res gs' world'.
               for_await gen (insertRecords env) Fresh world = Some (res, gs', world') \<longrightarrow>
               (\<forall>w. cachedOnce modulePath f (workers world' w))))"
proof -
  let ?g1 = "g\<lparr>importLog := importLog g @ [modulePath], transformHtml := Some f,
               transformModulePath := Some modulePath\<rparr>"
  have a: "transformHtmlRecords env records modulePath g = (settle f records, ?g1)"
    if "transformHtml g = None \<or> transformModulePath g \<noteq> Some modulePath"
    using that assms by (simp add: transformHtmlRecords_def Let_def applyCached_def settle_def)
  have b: "transformHtmlRecords env records' modulePath ?g1 = (settle f records', ?g1)" for records'
    by (simp add: transformHtmlRecords_def applyCached_def settle_def)
  have c: "\<forall>w. cachedOnce modulePath f (workers (pool_create world) w)"
    by (simp add: pool_create_counters cachedOnce_def)
  have d: "\<forall>w. cachedOnce modulePath f (workers (snd (execChunks env modulePath chunks world)) w)"
    if "\<forall>w. cachedOnce modulePath f (workers world w)"
    using that by (rule execChunks_cachedOnce[OF assms])
  have e: "\<forall>w. cachedOnce modulePath f (workers world' w)"
    if r: "resolve env givenPath = modulePath"
      and g: "gen = processRecordsInParallel env db givenPath pageSize chunkSize \<or>
              gen = transformHtmlRecordsInParallel_gen env db givenPath pageSize chunkSize"
      and run: "for_await gen (insertRecords env) Fresh world = Some (res, gs', world')"
    for res gs' world'
  proof -
    let ?I = "\<lambda>ws. \<forall>w. cachedOnce modulePath f (ws w)"
    have m: "files env (resolve env givenPath) = Exports f" using assms r by simp
    have fresh: "?I (\<lambda>_. freshGlobals)" by (simp add: cachedOnce_def)
    from g show ?thesis
    proof
      assume gen: "gen = processRecordsInParallel env db givenPath pageSize chunkSize"
      have body: "\<forall>records w r w1. ?I (workers w) \<longrightarrow>
          processPage env givenPath chunkSize records w = Some (r, w1) \<longrightarrow> ?I (workers w1)"
        using processPage_workers[OF m] unfolding r by blast
      from loop_workers[where I = ?I, OF body fresh run[unfolded gen processRecordsInParallel_def]]
      show ?thesis by simp
    next
      assume gen: "gen = transformHtmlRecordsInParallel_gen env db givenPath pageSize chunkSize"
      have body: "\<forall>records w r w1. ?I (workers w) \<longrightarrow>
          transformHtmlRecordsInParallel env records givenPath chunkSize w = Some (r, w1) \<longrightarrow>
          ?I (workers w1)"
        using transformHtmlRecordsInParallel_workers[OF m] unfolding r by blast
      from loop_workers[where I = ?I, OF body fresh
          run[unfolded gen transformHtmlRecordsInParallel_gen_def]]
      show ?thesis by simp
    qed
  qed
  have "\<exists>g1. transformHtmlRecords env records modulePath g = (settle f records, g1) \<and>
                   importLog g1 = importLog g @ [modulePath] \<and>
                   transformHtml g1 = Some f \<and>
                   transformModulePath g1 = Some modulePath \<and>
                   (\<forall>records'. transformHtmlRecords env records' modulePath g1
                                  = (settle f records', g1))"
    if "transformHtml g = None \<or> transformModulePath g \<noteq> Some modulePath"
    by (rule exI[of _ ?g1]) (use a[OF that] b in simp)
  with c d e show ?thesis by blast
qed

text \<open>
  Two dispatches of the same path to a fresh context: one import. Three chunks dispatched to
  a new pool of two workers: each of the two contexts has imported the module once. The loop
  of the workflow over a source of one HTML row: no context has imported the module twice.
\<close>

theorem worker_cache_witness:
  "importLog (snd (transformHtmlRecords upperEnv [] ''t.js''
     (snd (transformHtmlRecords upperEnv [] ''t.js'' freshGlobals)))) = [''t.js''] \<and>
   map (\<lambda>w. importLog (workers (snd (execChunks upperEnv ''t.js'' [[], [], []]
                                         (pool_create initialWorld))) w)) [0, 1]
     = [[''t.js''], [''t.js'']] \<and>
   (\<exists>world'.
      for_await (processRecordsInParallel upperEnv [mkRow 1 ''a'' ''x'' HTML] ''t.js'' 10 2)
        (insertRecords upperEnv) Fresh initialWorld = Some (Inr (), Finished, world') \<and>
      length (importLog (workers world' 0)) \<le> 1 \<and> length (importLog (workers world' 1)) \<le> 1)"
proof -
  let ?db = "[mkRow 1 ''a'' ''x'' HTML]"
  let ?gen = "processRecordsInParallel upperEnv ?db ''t.js'' 10 2"
  have m: "files upperEnv ''t.js'' = Exports (\<lambda>s. Some (toUpperCase s))"
    by (simp add: upperEnv_def)
  note t = worker_cache[where g = freshGlobals and records = "[]"
      and world = "pool_create initialWorld" and chunks = "[[], [], []]"
      and givenPath = "''t.js''" and db = ?db and pageSize = 10 and chunkSize = 2
      and gen = ?gen, OF m]
  note t0 = worker_cache[where g = freshGlobals and records = "[]"
      and world = initialWorld and chunks = "[]"
      and givenPath = "''t.js''" and db = ?db and pageSize = 10 and chunkSize = 2
      and gen = ?gen, OF m]
  have "transformHtml freshGlobals = None \<or> transformModulePath freshGlobals \<noteq> Some ''t.js''"
    by (simp add: freshGlobals_def)
  with t obtain g1 where g1:
    "transformHtmlRecords upperEnv [] ''t.js'' freshGlobals
       = (settle (\<lambda>s. Some (toUpperCase s)) [], g1)"
    "importLog g1 = importLog freshGlobals @ [''t.js'']"
    "\<forall>records'. transformHtmlRecords upperEnv records' ''t.js'' g1
                   = (settle (\<lambda>s. Some (toUpperCase s)) records', g1)"
    by blast
  have a: "importLog (snd (transformHtmlRecords upperEnv [] ''t.js''
     (snd (transformHtmlRecords upperEnv [] ''t.js'' freshGlobals)))) = [''t.js'']"
    using g1 by (simp add: freshGlobals_def)
  let ?w = "snd (execChunks upperEnv ''t.js'' [[], [], []] (pool_create initialWorld))"
  from t0 have "\<forall>w. cachedOnce ''t.js'' (\<lambda>s. Some (toUpperCase s)) (workers (pool_create initialWorld) w)"
    by blast
  with t have inv: "\<forall>w. cachedOnce ''t.js'' (\<lambda>s. Some (toUpperCase s)) (workers ?w w)" by blast
  have used: "importLog (workers ?w 0) \<noteq> [] \<and> importLog (workers ?w 1) \<noteq> []"
    by (simp add: pool_exec_def pool_create_def initialWorld_def upperEnv_def Let_def split_beta
          transformHtmlRecords_def freshGlobals_def applyCached_def)
  from inv used have b: "importLog (workers ?w 0) = [''t.js''] \<and> importLog (workers ?w 1) = [''t.js'']"
    by (blast intro: cachedOnce_used)
  have p: "(0::nat) < 10" "(0::nat) < 2" by simp_all
  have u: "uniqueRowids ?db" "exactRowids ?db"
    by (simp_all add: uniqueRowids_def exactRowids_def mkRow_def toNumber_exact)
  have nfu: "\<forall>q. \<not> sourceFault upperEnv q" "\<forall>n. \<not> targetFault upperEnv n"
    and mu: "files upperEnv (resolve upperEnv ''t.js'') = Exports (\<lambda>s. Some (toUpperCase s))"
    and res: "resolve upperEnv ''t.js'' = ''t.js''"
    by (simp_all add: upperEnv_def)
  have "\<exists>world' sizes.
           for_await ?gen (insertRecords upperEnv) Fresh initialWorld = Some (Inr (), Finished, world') \<and>
           contents (target world') =
             contents (target initialWorld)
               @ map (\<lambda>r. stored (reassembled toUpperCase (recordOfRow r))) (pending ?db None (Some 0)) \<and>
           insertSizes world' = insertSizes initialWorld @ sizes \<and>
           sum_list sizes = length (pending ?db None (Some 0))"
    by (rule interleaved_loop[where f = "\<lambda>s. Some (toUpperCase s)" and h = toUpperCase,
          OF p mu _ nfu u]) simp
  then obtain w1 where r1:
    "for_await ?gen (insertRecords upperEnv) Fresh initialWorld = Some (Inr (), Finished, w1)"
    by blast
  from t0 res r1 have "\<forall>w. cachedOnce ''t.js'' (\<lambda>s. Some (toUpperCase s)) (workers w1 w)"
    by blast
  then have "cachedOnce ''t.js'' (\<lambda>s. Some (toUpperCase s)) (workers w1 0)"
    "cachedOnce ''t.js'' (\<lambda>s. Some (toUpperCase s)) (workers w1 1)" by blast+
  then have "length (importLog (workers w1 0)) \<le> 1 \<and> length (importLog (workers w1 1)) \<le> 1"
    by (auto simp: cachedOnce_def freshGlobals_def)
  with r1 have c: "\<exists>world'.
      for_await ?gen (insertRecords upperEnv) Fresh initialWorld = Some (Inr (), Finished, world') \<and>
      length (importLog (workers world' 0)) \<le> 1 \<and> length (importLog (workers world' 1)) \<le> 1"
    by blast
  from a b c show ?thesis by (simp only: list.map)
qed

text \<open>
  C9. A worker dispatch that returns a chunk returns one of the same length; the record at
  each position keeps its \<open>entry\<close>, \<open>content_type\<close> and \<open>rowid\<close>, and its \<open>paraphrase\<close> is the
  loaded transform function applied to the paraphrase of the input record at that position.
\<close>

theorem transformHtmlRecords_frame:
  assumes "transformHtmlRecords env records modulePath g = (Inr out, g')"
  shows "length out = length records \<and>
         (\<exists>f. transformHtml g' = Some f \<and>
           (\<forall>i < length records.
              f (paraphrase (records ! i)) = Some (paraphrase (out ! i)) \<and>
              entry (out ! i) = entry (records ! i) \<and>
              content_type (out ! i) = content_type (records ! i) \<and>
              rowid (out ! i) = rowid (records ! i)))"
proof -
  from transformHtmlRecords_result[OF assms]
  obtain f where f: "transformHtml g' = Some f" "mapRecords f records = Some out" by blast
  have len: "length out = length records" using f(2) by (rule mapRecords_length)
  have "\<forall>i < length records.
          f (paraphrase (records ! i)) = Some (paraphrase (out ! i)) \<and>
          entry (out ! i) = entry (records ! i) \<and>
          content_type (out ! i) = content_type (records ! i) \<and>
          rowid (out ! i) = rowid (records ! i)"
  proof (intro allI impI)
    fix i assume i: "i < length records"
    from mapRecords_nth[OF f(2) i]
    have a: "f (paraphrase (records ! i)) = Some (paraphrase (out ! i))"
      and b: "out ! i = (records ! i)\<lparr>paraphrase := paraphrase (out ! i)\<rparr>" by blast+
    have "entry (out ! i) = entry (records ! i)" by (subst b) simp
    moreover have "content_type (out ! i) = content_type (records ! i)" by (subst b) simp
    moreover have "rowid (out ! i) = rowid (records ! i)" by (subst b) simp
    ultimately show "f (paraphrase (records ! i)) = Some (paraphrase (out ! i)) \<and>
          entry (out ! i) = entry (records ! i) \<and>
          content_type (out ! i) = content_type (records ! i) \<and>
          rowid (out ! i) = rowid (records ! i)" using a by simp
  qed
  with len f(1) show ?thesis by blast
qed

text \<open>The dispatch of one record to a fresh context, with a transform that prefixes a tag.\<close>

theorem transformHtmlRecords_frame_witness:
  "transformHtmlRecords
     \<lparr>existsSync = (\<lambda>_. True), files = (\<lambda>_. Exports (\<lambda>s. Some (''<b>'' @ s))),
      resolve = id, poolSize = 2, schedule = id, sourceFault = (\<lambda>_. False),
      targetFault = (\<lambda>_. False), randomRowid = (\<lambda>_. 0)\<rparr>
     [\<lparr>entry = ''cat'', paraphrase = ''feline'', content_type = Some HTML, rowid = Some 7\<rparr>]
     ''/t.js'' freshGlobals
   = (Inr [\<lparr>entry = ''cat'', paraphrase = ''<b>feline'', content_type = Some HTML, rowid = Some 7\<rparr>],
      \<lparr>transformHtml = Some (\<lambda>s. Some (''<b>'' @ s)), transformModulePath = Some ''/t.js'',
       importLog = [''/t.js'']\<rparr>)
   \<and> length [\<lparr>entry = ''cat'', paraphrase = ''<b>feline'', content_type = Some HTML, rowid = Some 7\<rparr>]
       = length [\<lparr>entry = ''cat'', paraphrase = ''feline'', content_type = Some HTML, rowid = Some (7::int)\<rparr>]"
proof -
  have run: "transformHtmlRecords
     \<lparr>existsSync = (\<lambda>_. True), files = (\<lambda>_. Exports (\<lambda>s. Some (''<b>'' @ s))),
      resolve = id, poolSize = 2, schedule = id, sourceFault = (\<lambda>_. False),
      targetFault = (\<lambda>_. False), randomRowid = (\<lambda>_. 0)\<rparr>
     [\<lparr>entry = ''cat'', paraphrase = ''feline'', content_type = Some HTML, rowid = Some 7\<rparr>]
     ''/t.js'' freshGlobals
   = (Inr [\<lparr>entry = ''cat'', paraphrase = ''<b>feline'', content_type = Some HTML, rowid = Some 7\<rparr>],
      \<lparr>transformHtml = Some (\<lambda>s. Some (''<b>'' @ s)), transformModulePath = Some ''/t.js'',
       importLog = [''/t.js'']\<rparr>)"
    by (simp add: transformHtmlRecords_def applyCached_def freshGlobals_def)
  from transformHtmlRecords_frame[OF run] show ?thesis using run by simp
qed

text \<open>
  C10. \<open>splitRecordsByContentType\<close> returns the HTML records and the LINK records, each in
  source order. The records it drops are exactly those whose \<open>content_type\<close> is neither
  HTML nor LINK, so the two subsets cover the input only when every kind is known.
\<close>

theorem splitRecordsByContentType_partition:
  "splitRecordsByContentType records =
     (filter (\<lambda>r. content_type r = Some HTML) records,
      filter (\<lambda>r. content_type r = Some LINK) records) \<and>
   length (fst (splitRecordsByContentType records)) + length (snd (splitRecordsByContentType records))
     + length (filter (\<lambda>r. content_type r \<noteq> Some HTML \<and> content_type r \<noteq> Some LINK) records)
     = length records \<and>
   ((\<exists>r \<in> set records. content_type r \<noteq> Some HTML \<and> content_type r \<noteq> Some LINK) \<longrightarrow>
      length (fst (splitRecordsByContentType records)) + length (snd (splitRecordsByContentType records))
        < length records)"
proof -
  have eq: "splitRecordsByContentType records =
     (filter (\<lambda>r. content_type r = Some HTML) records,
      filter (\<lambda>r. content_type r = Some LINK) records)"
    by (simp add: splitRecordsByContentType_def fold_splitStep)
  have cnt: "length (filter (\<lambda>r. content_type r = Some HTML) records)
      + length (filter (\<lambda>r. content_type r = Some LINK) records)
      + length (filter (\<lambda>r. content_type r \<noteq> Some HTML \<and> content_type r \<noteq> Some LINK) records)
      = length records"
    by (induction records) (auto simp: HTML_def LINK_def)
  have lt: "length (filter (\<lambda>r. content_type r = Some HTML) records)
      + length (filter (\<lambda>r. content_type r = Some LINK) records) < length records"
    if "\<exists>r \<in> set records. content_type r \<noteq> Some HTML \<and> content_type r \<noteq> Some LINK"
  proof -
    from that
    have "filter (\<lambda>r. content_type r \<noteq> Some HTML \<and> content_type r \<noteq> Some LINK) records \<noteq> []"
      by (simp add: filter_empty_conv)
    then have "0 < length (filter (\<lambda>r. content_type r \<noteq> Some HTML \<and> content_type r \<noteq> Some LINK) records)"
      by simp
    with cnt show ?thesis by linarith
  qed
  show ?thesis unfolding eq using cnt lt by simp
qed

text \<open>A record of kind 2 is in neither subset.\<close>

theorem splitRecordsByContentType_partition_witness:
  "(\<exists>r \<in> set [\<lparr>entry = ''a'', paraphrase = ''x'', content_type = Some HTML, rowid = Some 1\<rparr>,
                 \<lparr>entry = ''b'', paraphrase = ''y'', content_type = Some 2, rowid = Some 2\<rparr>].
       content_type r \<noteq> Some HTML \<and> content_type r \<noteq> Some LINK) \<and>
   splitRecordsByContentType
     [\<lparr>entry = ''a'', paraphrase = ''x'', content_type = Some HTML, rowid = Some 1\<rparr>,
      \<lparr>entry = ''b'', paraphrase = ''y'', content_type = Some 2, rowid = Some 2\<rparr>]
   = ([\<lparr>entry = ''a'', paraphrase = ''x'', content_type = Some HTML, rowid = Some 1\<rparr>], [])"
  using splitRecordsByContentType_partition
    [of "[\<lparr>entry = ''a'', paraphrase = ''x'', content_type = Some HTML, rowid = Some 1\<rparr>,
          \<lparr>entry = ''b'', paraphrase = ''y'', content_type = Some 2, rowid = Some 2\<rparr>]"]
  by (simp add: HTML_def LINK_def)

end
